theory Spec2Isabelle
  imports Main "HOL-Library.Word"
begin

unbundle bit_operations_syntax

section \<open>Bytes, slices and the struct module\<close>

text \<open>
  A Python \<open>bytes\<close> or \<open>bytearray\<close> value is a list of 8-bit words. Python integers are
  unbounded: a value that \<open>struct.unpack\<close> reads is a \<open>nat\<close> (unsigned formats) or an
  \<open>int\<close> (signed formats).
\<close>

type_synonym byte = "8 word"
type_synonym bytes = "byte list"

text \<open>The exceptions and the process exit that the modelled functions can end in.\<close>

datatype exn =
    StructError
  | TypeError
  | IndexError
  | TimeoutError
  | Gaierror
  | InvalidConnectionRespone
  | InvalidAnnounceRespone
  | IncompleteReadError
  | OtherError

text \<open>\<open>xs[a:b]\<close> for indices \<open>0 \<le> a\<close>, \<open>0 \<le> b\<close>: Python clips both bounds to the length.\<close>

definition slice :: "nat \<Rightarrow> nat \<Rightarrow> 'a list \<Rightarrow> 'a list" where
  "slice a b xs = take (b - a) (drop a xs)"

text \<open>The big-endian value of a byte string.\<close>

definition be_nat :: "bytes \<Rightarrow> nat" where
  "be_nat bs = foldl (\<lambda>acc b. acc * 256 + unat b) 0 bs"

text \<open>
  \<open>struct.unpack(fmt, buf)\<close> raises \<open>struct.error\<close> unless \<open>len(buf)\<close> is the size of the
  format. \<open>>I\<close> and \<open>>L\<close> are 4 unsigned bytes, \<open>>b\<close> is one signed byte, \<open>>H\<close> two unsigned
  bytes, \<open>>Q\<close> eight.
\<close>

definition unpack_I :: "bytes \<Rightarrow> exn + nat" where
  "unpack_I buf = (if length buf = 4 then Inr (be_nat buf) else Inl StructError)"

definition unpack_b :: "bytes \<Rightarrow> exn + int" where
  "unpack_b buf = (case buf of [x] \<Rightarrow> Inr (sint x) | _ \<Rightarrow> Inl StructError)"

definition unpack_II :: "bytes \<Rightarrow> exn + (nat \<times> nat)" where
  "unpack_II buf =
     (if length buf = 8 then Inr (be_nat (slice 0 4 buf), be_nat (slice 4 8 buf))
      else Inl StructError)"

text \<open>
  \<open>struct.unpack(">B19s8x20s20s", packet)\<close>: 68 bytes; the 8 pad bytes are skipped.
\<close>

definition unpack_handshake :: "bytes \<Rightarrow> exn + (nat \<times> bytes \<times> bytes \<times> bytes)" where
  "unpack_handshake packet =
     (if length packet = 68
      then Inr (unat (packet ! 0), slice 1 20 packet, slice 28 48 packet, slice 48 68 packet)
      else Inl StructError)"

section \<open>utils/details.py: ParsedMessage\<close>

text \<open>
  The three attributes of \<open>ParsedMessage\<close>; each may be \<open>None\<close>. (The names \<open>size\<close> and
  \<open>id\<close> are constants of HOL, hence the prefix.)
\<close>

record ParsedMessage =
  msg_size :: "nat option"
  msg_id :: "int option"
  payload :: "bytes option"

section \<open>utils/build\_messages.py: parse\_message\<close>

definition parse_message :: "bytes \<Rightarrow> exn + ParsedMessage" where
  "parse_message packet =
     (case (if length packet < 4 then Inr None
            else map_sum (\<lambda>e. e) Some (unpack_I (slice 0 4 packet))) of
        Inl e \<Rightarrow> Inl e
      | Inr len \<Rightarrow>
          (case (if length packet < 5 then Inr None
                 else map_sum (\<lambda>e. e) Some (unpack_b (slice 4 5 packet))) of
             Inl e \<Rightarrow> Inl e
           | Inr i \<Rightarrow>
               Inr \<lparr>msg_size = len, msg_id = i,
                    payload = (if length packet < 6 then None else Some (drop 5 packet))\<rparr>))"

section \<open>utils/verify\_messages.py\<close>

text \<open>The protocol string \<open>b'BitTorrent protocol'\<close>.\<close>

definition pstr :: bytes where
  "pstr = map of_char ''BitTorrent protocol''"

definition is_handshake :: "bytes \<Rightarrow> bytes \<Rightarrow> exn + bool" where
  "is_handshake packet info_hash =
     (if length packet \<noteq> 68 then Inr False
      else (case unpack_handshake packet of
              Inl e \<Rightarrow> Inl e
            | Inr (len_resp, msg_resp, info_hash_resp, peer_id_resp) \<Rightarrow>
                if len_resp \<noteq> 19 \<or> msg_resp \<noteq> pstr \<or> info_hash_resp \<noteq> info_hash
                then Inr False
                else Inr True))"

definition is_have :: "ParsedMessage \<Rightarrow> bool" where
  "is_have msg = (msg_id msg = Some 4)"

definition is_bitfeild :: "ParsedMessage \<Rightarrow> bool" where
  "is_bitfeild msg = (msg_id msg = Some 5)"

definition is_choke :: "ParsedMessage \<Rightarrow> bool" where
  "is_choke msg = (msg_id msg = Some 0 \<and> msg_size msg = Some 1)"

definition is_unchoke :: "ParsedMessage \<Rightarrow> bool" where
  "is_unchoke msg = (msg_id msg = Some 1 \<and> msg_size msg = Some 1)"

text \<open>
  \<open>msg.id == 7 and msg.size > 9 and msg.payload is not None\<close>. The comparison \<open>None > 9\<close>
  would raise, but \<open>and\<close> evaluates it only when \<open>id\<close> is 7; for a message that
  \<open>parse_message\<close> built, \<open>id\<close> is set only when \<open>size\<close> is.
\<close>

definition is_piece :: "ParsedMessage \<Rightarrow> bool" where
  "is_piece msg =
     (msg_id msg = Some 7 \<and> (case msg_size msg of None \<Rightarrow> False | Some s \<Rightarrow> s > 9)
      \<and> payload msg \<noteq> None)"

section \<open>utils/handlers.py\<close>

text \<open>
  The inner loop of \<open>bitfield_handler\<close>, \<open>for bit in range(8)\<close>, over the bits still to
  visit. \<open>break\<close> leaves the loop with the result so far.
\<close>

fun bitfield_bits :: "nat \<Rightarrow> byte \<Rightarrow> bool list \<Rightarrow> nat list \<Rightarrow> nat list \<Rightarrow> nat list" where
  "bitfield_bits byte_index b verified_pieces [] result = result"
| "bitfield_bits byte_index b verified_pieces (bit_no # bits) result =
     (let piece_index = byte_index * 8 + (7 - bit_no) in
      if piece_index \<ge> length verified_pieces then result
      else if drop_bit bit_no b AND 1 \<noteq> 0 \<and> \<not> verified_pieces ! piece_index
           then bitfield_bits byte_index b verified_pieces bits (result @ [piece_index])
           else bitfield_bits byte_index b verified_pieces bits result)"

text \<open>The outer loop, \<open>for byte_index, byte in enumerate(payload)\<close>.\<close>

fun bitfield_bytes :: "nat \<Rightarrow> bytes \<Rightarrow> bool list \<Rightarrow> nat list \<Rightarrow> nat list" where
  "bitfield_bytes byte_index [] verified_pieces result = result"
| "bitfield_bytes byte_index (b # rest) verified_pieces result =
     bitfield_bytes (byte_index + 1) rest verified_pieces
       (bitfield_bits byte_index b verified_pieces [0..<8] result)"

text \<open>\<open>enumerate(None)\<close> raises \<open>TypeError\<close>.\<close>

definition bitfield_handler :: "ParsedMessage \<Rightarrow> bool list \<Rightarrow> exn + nat list" where
  "bitfield_handler parsed_message verified_pieces =
     (case payload parsed_message of
        None \<Rightarrow> Inl TypeError
      | Some p \<Rightarrow> Inr (bitfield_bytes 0 p verified_pieces []))"

text \<open>
  \<open>have_handler\<close>: \<open>struct.unpack(">I", payload)\<close> raises on a payload that is \<open>None\<close> or
  not 4 bytes long, and \<open>verified_pieces[piece_index]\<close> raises out of range.
\<close>

definition have_handler :: "ParsedMessage \<Rightarrow> bool list \<Rightarrow> exn + nat list" where
  "have_handler parsed_message verified_pieces =
     (case payload parsed_message of
        None \<Rightarrow> Inl TypeError
      | Some p \<Rightarrow>
          (case unpack_I p of
             Inl e \<Rightarrow> Inl e
           | Inr piece_index \<Rightarrow>
               if piece_index \<ge> length verified_pieces then Inl IndexError
               else if \<not> verified_pieces ! piece_index then Inr [piece_index]
               else Inr []))"

text \<open>
  \<open>verify_piece_hash\<close>. SHA-1 comes from \<open>hashlib\<close>; it is a parameter here, so every
  result below holds for whatever function computes the digest.
\<close>

definition verify_piece_hash :: "(bytes \<Rightarrow> bytes) \<Rightarrow> bytes \<Rightarrow> bytes \<Rightarrow> bool" where
  "verify_piece_hash sha1 piece_data piece_hash = (sha1 piece_data = piece_hash)"

text \<open>
  The bit of a bitfield payload at piece index \<open>i\<close>, as the wire format defines it:
  \<open>(byte[i/8] >> (7 - i%8)) & 1\<close>.
\<close>

definition bitfield_bit :: "bytes \<Rightarrow> nat \<Rightarrow> bool" where
  "bitfield_bit p i = (drop_bit (7 - i mod 8) (p ! (i div 8)) AND 1 = 1)"

section \<open>The byte stream of a peer connection\<close>

text \<open>
  What \<open>recv_whole_message(reader, isHandshake=False)\<close> yields on a connection, in order:
  a framed message (the 4-byte length prefix followed by that many bytes), or nothing for
  the length of a timeout. The end of the list is the end of the stream: the peer has
  closed the connection and \<open>readexactly\<close> raises \<open>IncompleteReadError\<close>.
\<close>

datatype incoming = Msg bytes | Silent

section \<open>utils/build\_messages.py: the messages the client sends\<close>

text \<open>
  \<open>struct.pack\<close> of an unsigned field of \<open>n\<close> bytes, big-endian; it raises
  \<open>struct.error\<close> when the value does not fit.
\<close>

fun be_bytes :: "nat \<Rightarrow> nat \<Rightarrow> bytes" where
  "be_bytes 0 v = []"
| "be_bytes (Suc n) v = be_bytes n (v div 256) @ [of_nat (v mod 256)]"

definition pack_u :: "nat \<Rightarrow> nat \<Rightarrow> exn + bytes" where
  "pack_u n v = (if v < 256 ^ n then Inr (be_bytes n v) else Inl StructError)"

definition build_interested :: bytes where
  "build_interested = be_bytes 4 1 @ [2]"

text \<open>\<open>struct.pack(">IbIII", 13, 6, piece_index, begin, length)\<close>.\<close>

definition build_request :: "nat \<Rightarrow> nat \<Rightarrow> nat \<Rightarrow> exn + bytes" where
  "build_request piece_index begin len =
     (case (pack_u 4 piece_index, pack_u 4 begin, pack_u 4 len) of
        (Inr a, Inr b, Inr c) \<Rightarrow> Inr (be_bytes 4 13 @ [6] @ a @ b @ c)
      | _ \<Rightarrow> Inl StructError)"

text \<open>\<open>build_piece\<close>, the message a peer answers a request with.\<close>

definition build_piece :: "nat \<Rightarrow> nat \<Rightarrow> bytes \<Rightarrow> exn + bytes" where
  "build_piece piece_index begin block =
     (case (pack_u 4 (9 + length block), pack_u 4 piece_index, pack_u 4 begin) of
        (Inr l, Inr a, Inr b) \<Rightarrow> Inr (l @ [7] @ a @ b @ block)
      | _ \<Rightarrow> Inl StructError)"

section \<open>utils/details.py and utils/json\_data.py: the shared data\<close>

text \<open>
  The attributes of \<open>TorrentDetails\<close> that the download stage reads. (The prefix keeps
  them apart from the fields of \<open>ResumeData\<close>, which has a \<open>piece_length\<close> too.)
\<close>

record TorrentDetails =
  td_piece_length :: nat
  td_total_length :: nat
  td_num_of_pieces :: nat
  td_hash_of_pieces :: "bytes list"

text \<open>
  The dataclass \<open>ResumeData\<close>: the eight constructor fields and \<open>claimed_pieces\<close>.
  The field \<open>lock\<close> is an \<open>asyncio.Lock\<close>; it carries no data. Under asyncio a task
  runs without interruption between two \<open>await\<close>s, and no block that holds the lock
  awaits anything, so each such block is one atomic step of the model.
\<close>

record ResumeData =
  info_hash :: string
  piece_length :: int
  total_pieces :: int
  downloaded :: int
  file_sizes :: "int list"
  mtime :: int
  verified_pieces :: "bool list"
  last_active :: string
  claimed_pieces :: "nat set"

section \<open>utils/download.py: download\_from\_peer\<close>

definition MAX_CLAIM_PER_PEER :: nat where
  "MAX_CLAIM_PER_PEER = 30"

definition BLOCK_SIZE :: nat where
  "BLOCK_SIZE = 2 ^ 14"

text \<open>
  The claim loop (lines 223 to 231), over the rest of \<open>pieces_available_from_peer\<close>. It
  mutates \<open>resume_data\<close> in place, so an \<open>IndexError\<close> of \<open>verified_pieces[piece_index]\<close>
  leaves the claims made so far, in \<open>claimed\<close> and in \<open>claimed_pieces\<close>: the result is
  the exception, if any, with both.
\<close>

fun claim_loop :: "nat list \<Rightarrow> nat list \<Rightarrow> ResumeData \<Rightarrow> exn option \<times> nat list \<times> ResumeData" where
  "claim_loop [] claimed rd = (None, claimed, rd)"
| "claim_loop (piece_index # rest) claimed rd =
     (if length claimed \<ge> MAX_CLAIM_PER_PEER then (None, claimed, rd)
      else if piece_index \<ge> length (verified_pieces rd) then (Some IndexError, claimed, rd)
      else if \<not> verified_pieces rd ! piece_index \<and> piece_index \<notin> claimed_pieces rd
           then claim_loop rest (claimed @ [piece_index])
                  (rd\<lparr>claimed_pieces := insert piece_index (claimed_pieces rd)\<rparr>)
           else claim_loop rest claimed rd)"

text \<open>
  The requests of one piece (lines 242 to 250): \<open>(piece_index, begin, block_length)\<close> for
  \<open>block_num\<close> in \<open>range(num_blocks)\<close>.
\<close>

definition num_blocks :: "nat \<Rightarrow> nat" where
  "num_blocks piece_len = (piece_len + BLOCK_SIZE - 1) div BLOCK_SIZE"

definition block_request :: "nat \<Rightarrow> nat \<Rightarrow> nat \<Rightarrow> nat \<times> nat \<times> nat" where
  "block_request piece_len piece_index block_num =
     (let begin = block_num * BLOCK_SIZE;
          block_length = min BLOCK_SIZE (piece_len - begin)
      in (piece_index, begin, block_length))"

definition block_requests :: "nat \<Rightarrow> nat \<Rightarrow> (nat \<times> nat \<times> nat) list" where
  "block_requests piece_len piece_index =
     map (block_request piece_len piece_index) [0..<num_blocks piece_len]"

text \<open>
  The wait for the block that answers a request (lines 255 to 269): every message that is
  not the \<open>piece\<close> message of this \<open>(piece_index, begin)\<close> is dropped. The read has no
  timeout here, so a silent peer is waited for.
\<close>

fun recv_block :: "nat \<Rightarrow> nat \<Rightarrow> incoming list \<Rightarrow> exn + (bytes \<times> incoming list)" where
  "recv_block piece_index begin [] = Inl IncompleteReadError"
| "recv_block piece_index begin (Silent # rest) = recv_block piece_index begin rest"
| "recv_block piece_index begin (Msg msg # rest) =
     (case parse_message msg of
        Inl e \<Rightarrow> Inl e
      | Inr parsed \<Rightarrow>
          if is_piece parsed then
            (case payload parsed of
               None \<Rightarrow> Inl TypeError
             | Some p \<Rightarrow>
                 (case unpack_II (slice 0 8 p) of
                    Inl e \<Rightarrow> Inl e
                  | Inr (r_index, r_begin) \<Rightarrow>
                      if r_index = piece_index \<and> r_begin = begin
                      then Inr (drop 8 p, rest)
                      else recv_block piece_index begin rest))
          else recv_block piece_index begin rest)"

text \<open>
  \<open>piece_data[begin:begin + len(r_block)] = r_block\<close> on a bytearray: the slice, clipped to
  the length, is replaced by the block, so a block that reaches past the end extends the
  buffer.
\<close>

definition slice_assign :: "bytes \<Rightarrow> nat \<Rightarrow> bytes \<Rightarrow> bytes" where
  "slice_assign piece_data begin r_block =
     take begin piece_data @ r_block @ drop (begin + length r_block) piece_data"

text \<open>
  The block loop of one piece (lines 245 to 269) over the requests still to make; the
  result is the buffer, the rest of the stream and the requests written to the peer.
\<close>

fun download_blocks ::
  "(nat \<times> nat \<times> nat) list \<Rightarrow> bytes \<Rightarrow> incoming list \<Rightarrow> bytes list
     \<Rightarrow> exn + (bytes \<times> incoming list \<times> bytes list)" where
  "download_blocks [] piece_data stream written = Inr (piece_data, stream, written)"
| "download_blocks ((piece_index, begin, block_length) # todo) piece_data stream written =
     (case build_request piece_index begin block_length of
        Inl e \<Rightarrow> Inl e
      | Inr request_msg \<Rightarrow>
          (case recv_block piece_index begin stream of
             Inl e \<Rightarrow> Inl e
           | Inr (r_block, stream') \<Rightarrow>
               download_blocks todo (slice_assign piece_data begin r_block) stream'
                 (written @ [request_msg])))"

text \<open>Lines 242 to 269 for one piece: \<open>piece_data = bytearray(piece_length)\<close>, then the blocks.\<close>

definition download_piece ::
  "TorrentDetails \<Rightarrow> nat \<Rightarrow> incoming list \<Rightarrow> exn + (bytes \<times> incoming list \<times> bytes list)" where
  "download_piece td piece_index stream =
     download_blocks (block_requests (td_piece_length td) piece_index)
       (replicate (td_piece_length td) 0) stream []"

text \<open>
  Lines 271 to 286 for one piece: the hash check, then either the discard of the claim or
  the commit. \<open>save_piece_to_disk\<close>, between the two, writes files only and reads no
  field of \<open>resume_data\<close>; an exception that it raises ends the session like any other.
\<close>

definition finish_piece ::
  "(bytes \<Rightarrow> bytes) \<Rightarrow> TorrentDetails \<Rightarrow> nat \<Rightarrow> bytes \<Rightarrow> ResumeData \<Rightarrow> exn + ResumeData" where
  "finish_piece sha1 td piece_index piece_data rd =
     (if piece_index \<ge> length (td_hash_of_pieces td) then Inl IndexError
      else if \<not> verify_piece_hash sha1 piece_data (td_hash_of_pieces td ! piece_index)
      then Inr (rd\<lparr>claimed_pieces := claimed_pieces rd - {piece_index}\<rparr>)
      else if piece_index \<ge> length (verified_pieces rd) then Inl IndexError
      else Inr (rd\<lparr>verified_pieces := (verified_pieces rd)[piece_index := True],
                   downloaded := downloaded rd + 1,
                   claimed_pieces := claimed_pieces rd - {piece_index}\<rparr>))"

text \<open>The handler of line 289: every index of the session's \<open>claimed\<close> list is discarded.\<close>

definition release :: "nat list \<Rightarrow> ResumeData \<Rightarrow> ResumeData" where
  "release claimed rd = rd\<lparr>claimed_pieces := claimed_pieces rd - set claimed\<rparr>"

subsection \<open>Sessions that share the ledger\<close>

text \<open>
  Several download workers run \<open>download_from_peer\<close> on the one \<open>resume_data\<close>. A session
  is at the head of its \<open>while\<close> loop, or inside the \<open>for\<close> loop over its batch (with the
  list \<open>claimed\<close> and the pieces still to download), or closed.
\<close>

datatype phase = AtLoopHead | InBatch "nat list" "nat list" | Closed

record session =
  available :: "nat list"
  phase_of :: phase

record system =
  ledger :: ResumeData
  sessions :: "nat \<Rightarrow> session"

text \<open>
  The steps between which a session can be suspended: the claim of a batch; the end of
  a piece's download with the bytes that were assembled (the reads before it touch no
  shared state); an exception inside the \<open>for\<close> loop (a stream or a disk error).
\<close>

datatype event = Claim nat | PieceDone nat bytes | Fail nat

definition after_piece :: "nat list \<Rightarrow> nat list \<Rightarrow> phase" where
  "after_piece claimed rest = (if rest = [] then AtLoopHead else InBatch claimed rest)"

definition set_phase :: "nat \<Rightarrow> phase \<Rightarrow> system \<Rightarrow> ResumeData \<Rightarrow> system" where
  "set_phase sid ph s rd =
     s\<lparr>ledger := rd, sessions := (sessions s)(sid := (sessions s sid)\<lparr>phase_of := ph\<rparr>)\<rparr>"

text \<open>One step; \<open>None\<close> when the session is not at a point where the event can happen.\<close>

fun step :: "(bytes \<Rightarrow> bytes) \<Rightarrow> TorrentDetails \<Rightarrow> event \<Rightarrow> system \<Rightarrow> system option" where
  "step sha1 td (Claim sid) s =
     (case phase_of (sessions s sid) of
        AtLoopHead \<Rightarrow>
          (case claim_loop (available (sessions s sid)) [] (ledger s) of
             (Some e, claimed, rd) \<Rightarrow> Some (set_phase sid Closed s (release claimed rd))
           | (None, claimed, rd) \<Rightarrow>
               if claimed = [] then Some (set_phase sid Closed s rd)
               else Some (set_phase sid (InBatch claimed claimed) s rd))
      | _ \<Rightarrow> None)"
| "step sha1 td (PieceDone sid piece_data) s =
     (case phase_of (sessions s sid) of
        InBatch claimed (piece_index # rest) \<Rightarrow>
          (case finish_piece sha1 td piece_index piece_data (ledger s) of
             Inl e \<Rightarrow> Some (set_phase sid Closed s (release claimed (ledger s)))
           | Inr rd \<Rightarrow> Some (set_phase sid (after_piece claimed rest) s rd))
      | _ \<Rightarrow> None)"
| "step sha1 td (Fail sid) s =
     (case phase_of (sessions s sid) of
        InBatch claimed (piece_index # rest) \<Rightarrow>
          Some (set_phase sid Closed s (release claimed (ledger s)))
      | _ \<Rightarrow> None)"

fun run :: "(bytes \<Rightarrow> bytes) \<Rightarrow> TorrentDetails \<Rightarrow> event list \<Rightarrow> system \<Rightarrow> system option" where
  "run sha1 td [] s = Some s"
| "run sha1 td (e # es) s =
     (case step sha1 td e s of None \<Rightarrow> None | Some s' \<Rightarrow> run sha1 td es s')"

text \<open>
  The fresh state that \<open>master.py\<close> builds when there is no resume file: no piece
  verified, nothing downloaded, nothing claimed; every session at the head of its loop.
\<close>

definition fresh_ledger :: "nat \<Rightarrow> ResumeData" where
  "fresh_ledger n =
     \<lparr>info_hash = [], piece_length = 0, total_pieces = int n, downloaded = 0,
      file_sizes = [], mtime = 0, verified_pieces = replicate n False,
      last_active = [], claimed_pieces = {}\<rparr>"

definition fresh_system :: "nat \<Rightarrow> (nat \<Rightarrow> nat list) \<Rightarrow> system" where
  "fresh_system n avail =
     \<lparr>ledger = fresh_ledger n,
      sessions = (\<lambda>sid. \<lparr>available = avail sid, phase_of = AtLoopHead\<rparr>)\<rparr>"

text \<open>The two parts of the ledger invariant.\<close>

definition verified_set :: "ResumeData \<Rightarrow> nat set" where
  "verified_set rd = {i. i < length (verified_pieces rd) \<and> verified_pieces rd ! i}"

definition popcount :: "bool list \<Rightarrow> int" where
  "popcount v = int (length (filter (\<lambda>b. b) v))"

definition claims_unverified :: "ResumeData \<Rightarrow> bool" where
  "claims_unverified rd = (claimed_pieces rd \<inter> verified_set rd = {})"

definition ledger_inv :: "ResumeData \<Rightarrow> bool" where
  "ledger_inv rd = (claims_unverified rd \<and> downloaded rd = popcount (verified_pieces rd))"

text \<open>
  The session that an event belongs to, and what a session that is the only one to act
  holds on to: the pieces of its batch that are still to download are distinct and in
  the claimed set.
\<close>

fun event_sid :: "event \<Rightarrow> nat" where
  "event_sid (Claim sid) = sid"
| "event_sid (PieceDone sid piece_data) = sid"
| "event_sid (Fail sid) = sid"

definition batch_held :: "nat \<Rightarrow> system \<Rightarrow> bool" where
  "batch_held sid s =
     (case phase_of (sessions s sid) of
        InBatch claimed todo \<Rightarrow> distinct todo \<and> set todo \<subseteq> claimed_pieces (ledger s)
      | _ \<Rightarrow> True)"

text \<open>
  The size of the last piece as the metadata defines it:
  \<open>total_length - (num_pieces - 1) * piece_length\<close>.
\<close>

definition last_piece_size :: "TorrentDetails \<Rightarrow> nat" where
  "last_piece_size td = td_total_length td - (td_num_of_pieces td - 1) * td_piece_length td"

section \<open>utils/download.py: wait\_for\_unchoke and handle\_worker\<close>

text \<open>
  What a handle worker does with one connection, in order: the messages it has read, the
  messages it has written, the hand-over to the download queue, the close of the writer.
\<close>

datatype hw_event = Recv bytes | Send bytes | Enqueue "nat list" | CloseWriter

text \<open>
  \<open>wait_for_unchoke\<close> (lines 93 to 113): each read has a timeout; \<open>asyncio.TimeoutError\<close>
  is caught and gives \<open>False\<close>, any other exception leaves the function.
\<close>

fun wait_for_unchoke :: "incoming list \<Rightarrow> hw_event list \<Rightarrow> (exn + bool) \<times> hw_event list" where
  "wait_for_unchoke [] tr = (Inl IncompleteReadError, tr)"
| "wait_for_unchoke (Silent # rest) tr = (Inr False, tr)"
| "wait_for_unchoke (Msg msg # rest) tr =
     (case parse_message msg of
        Inl e \<Rightarrow> (Inl e, tr @ [Recv msg])
      | Inr parsed \<Rightarrow>
          if is_unchoke parsed then (Inr True, tr @ [Recv msg])
          else wait_for_unchoke rest (tr @ [Recv msg]))"

text \<open>
  The body of the loop of \<open>handle_worker\<close> for one connection (lines 132 to 180). The
  handler of line 175 closes the writer on every exception, a timeout of the first read
  included.
\<close>

definition handle_connection :: "incoming list \<Rightarrow> bool list \<Rightarrow> hw_event list" where
  "handle_connection stream verified =
     (case stream of
        [] \<Rightarrow> [CloseWriter]
      | Silent # rest \<Rightarrow> [CloseWriter]
      | Msg msg # rest \<Rightarrow>
          (case parse_message msg of
             Inl e \<Rightarrow> [Recv msg, CloseWriter]
           | Inr parsed_message \<Rightarrow>
               if is_have parsed_message then
                 (case have_handler parsed_message verified of
                    Inl e \<Rightarrow> [Recv msg, CloseWriter]
                  | Inr pieces_to_request \<Rightarrow>
                      if length pieces_to_request = 0 then [Recv msg]
                      else (case wait_for_unchoke rest [Recv msg] of
                              (Inl e, tr) \<Rightarrow> tr @ [CloseWriter]
                            | (Inr unchoked, tr) \<Rightarrow>
                                if unchoked then tr @ [Enqueue pieces_to_request]
                                else tr @ [CloseWriter]))
               else if is_bitfeild parsed_message then
                 (case bitfield_handler parsed_message verified of
                    Inl e \<Rightarrow> [Recv msg, CloseWriter]
                  | Inr pieces_to_request \<Rightarrow>
                      if length pieces_to_request = 0 then [Recv msg]
                      else [Recv msg, Send build_interested, Enqueue pieces_to_request])
               else [Recv msg]))"

text \<open>Whether a message that was read is an unchoke.\<close>

definition unchoke_msg :: "bytes \<Rightarrow> bool" where
  "unchoke_msg msg = (case parse_message msg of Inl e \<Rightarrow> False | Inr parsed \<Rightarrow> is_unchoke parsed)"

text \<open>
  The property of a trace: no hand-over to the download queue before an unchoke has been
  read. The flag says whether one has been read so far.
\<close>

fun enqueue_after_unchoke :: "bool \<Rightarrow> hw_event list \<Rightarrow> bool" where
  "enqueue_after_unchoke seen [] = True"
| "enqueue_after_unchoke seen (Recv msg # tr) = enqueue_after_unchoke (seen \<or> unchoke_msg msg) tr"
| "enqueue_after_unchoke seen (Enqueue ps # tr) = (seen \<and> enqueue_after_unchoke seen tr)"
| "enqueue_after_unchoke seen (Send msg # tr) = enqueue_after_unchoke seen tr"
| "enqueue_after_unchoke seen (CloseWriter # tr) = enqueue_after_unchoke seen tr"

section \<open>utils/json\_data.py: to\_json and from\_json\<close>

text \<open>
  The Python values that the fields of a \<open>ResumeData\<close> hold. \<open>json.dump\<close> writes
  integers, strings, booleans and lists of them, and \<open>json.load\<close> reads the same values
  back; a set or a lock is not serialisable and makes \<open>json.dump\<close> raise \<open>TypeError\<close>.
\<close>

datatype pyval = PInt int | PStr string | PBool bool | PList "pyval list" | PSet "nat set" | PLock

primrec serialisable :: "pyval \<Rightarrow> bool" and serialisable_list :: "pyval list \<Rightarrow> bool" where
  "serialisable (PInt n) = True"
| "serialisable (PStr s) = True"
| "serialisable (PBool b) = True"
| "serialisable (PList vs) = serialisable_list vs"
| "serialisable (PSet S) = False"
| "serialisable PLock = False"
| "serialisable_list [] = True"
| "serialisable_list (v # vs) = (serialisable v \<and> serialisable_list vs)"

text \<open>A \<open>dict\<close> with string keys, in insertion order; a file system of JSON files.\<close>

type_synonym pydict = "(string \<times> pyval) list"
type_synonym files = "string \<Rightarrow> pydict option"

text \<open>\<open>asdict(self)\<close>: every dataclass field, the two that are not constructor fields too.\<close>

definition asdict :: "ResumeData \<Rightarrow> pydict" where
  "asdict r =
     [(''info_hash'', PStr (info_hash r)),
      (''piece_length'', PInt (piece_length r)),
      (''total_pieces'', PInt (total_pieces r)),
      (''downloaded'', PInt (downloaded r)),
      (''file_sizes'', PList (map PInt (file_sizes r))),
      (''mtime'', PInt (mtime r)),
      (''verified_pieces'', PList (map PBool (verified_pieces r))),
      (''last_active'', PStr (last_active r)),
      (''lock'', PLock),
      (''claimed_pieces'', PSet (claimed_pieces r))]"

text \<open>\<open>data.pop(key, None)\<close>.\<close>

definition pop :: "string \<Rightarrow> pydict \<Rightarrow> pydict" where
  "pop key data = filter (\<lambda>kv. fst kv \<noteq> key) data"

definition json_dump :: "pydict \<Rightarrow> string \<Rightarrow> files \<Rightarrow> exn + files" where
  "json_dump data path fs =
     (if serialisable_list (map snd data) then Inr (fs(path \<mapsto> data)) else Inl TypeError)"

definition to_json :: "ResumeData \<Rightarrow> string \<Rightarrow> files \<Rightarrow> exn + files" where
  "to_json r path fs = json_dump (pop ''claimed_pieces'' (pop ''lock'' (asdict r))) path fs"

text \<open>
  The constructor call with the dictionary as keyword arguments raises \<open>TypeError\<close> unless the keys are the eight
  constructor fields. Python does not check the values against the annotations; the
  record is typed, so a file with a value of another type is outside this model and is
  answered with \<open>TypeError\<close> as well.
\<close>

definition init_fields :: "string list" where
  "init_fields =
     [''info_hash'', ''piece_length'', ''total_pieces'', ''downloaded'', ''file_sizes'',
      ''mtime'', ''verified_pieces'', ''last_active'']"

definition as_int :: "pyval \<Rightarrow> int option" where
  "as_int v = (case v of PInt n \<Rightarrow> Some n | _ \<Rightarrow> None)"

definition as_str :: "pyval \<Rightarrow> string option" where
  "as_str v = (case v of PStr s \<Rightarrow> Some s | _ \<Rightarrow> None)"

definition as_bool :: "pyval \<Rightarrow> bool option" where
  "as_bool v = (case v of PBool b \<Rightarrow> Some b | _ \<Rightarrow> None)"

fun all_some :: "'a option list \<Rightarrow> 'a list option" where
  "all_some [] = Some []"
| "all_some (None # xs) = None"
| "all_some (Some x # xs) = (case all_some xs of None \<Rightarrow> None | Some ys \<Rightarrow> Some (x # ys))"

definition as_list :: "(pyval \<Rightarrow> 'a option) \<Rightarrow> pyval \<Rightarrow> 'a list option" where
  "as_list f v = (case v of PList vs \<Rightarrow> all_some (map f vs) | _ \<Rightarrow> None)"

definition field :: "(pyval \<Rightarrow> 'a option) \<Rightarrow> pydict \<Rightarrow> string \<Rightarrow> 'a option" where
  "field f data key = (case map_of data key of None \<Rightarrow> None | Some v \<Rightarrow> f v)"

definition construct :: "pydict \<Rightarrow> exn + ResumeData" where
  "construct data =
     (if set (map fst data) \<noteq> set init_fields then Inl TypeError
      else (case (field as_str data ''info_hash'', field as_int data ''piece_length'',
                  field as_int data ''total_pieces'', field as_int data ''downloaded'',
                  field (as_list as_int) data ''file_sizes'', field as_int data ''mtime'',
                  field (as_list as_bool) data ''verified_pieces'',
                  field as_str data ''last_active'') of
              (Some ih, Some pl, Some tp, Some d, Some fsz, Some mt, Some vp, Some la) \<Rightarrow>
                Inr \<lparr>info_hash = ih, piece_length = pl, total_pieces = tp, downloaded = d,
                     file_sizes = fsz, mtime = mt, verified_pieces = vp, last_active = la,
                     claimed_pieces = {}\<rparr>
            | _ \<Rightarrow> Inl TypeError))"

text \<open>
  \<open>from_json\<close>: \<open>open\<close> raises when there is no file at the path; the constructor leaves
  \<open>claimed_pieces\<close> at its default, the empty set, and line 52 sets it to \<open>set()\<close> again.
\<close>

definition from_json :: "string \<Rightarrow> files \<Rightarrow> exn + ResumeData" where
  "from_json path fs =
     (case fs path of
        None \<Rightarrow> Inl OtherError
      | Some data \<Rightarrow>
          (case construct data of
             Inl e \<Rightarrow> Inl e
           | Inr obj \<Rightarrow> Inr (obj\<lparr>claimed_pieces := {}\<rparr>)))"

section \<open>utils/get\_peers.py: the UDP tracker client\<close>

definition PORT_NUMBER :: nat where
  "PORT_NUMBER = 6881"

definition MAX_TRY :: nat where
  "MAX_TRY = 1"

definition protocol_id :: nat where
  "protocol_id = 0x41727101980"

text \<open>
  How a call ends: it returns, it raises, or \<open>sys.exit\<close> raises \<open>SystemExit\<close>, which no
  \<open>except Exception\<close> catches.
\<close>

datatype 'a outcome = Return 'a | Raise exn | SysExit nat

text \<open>
  \<open>struct.pack\<close> with a big-endian format: a field is an unsigned integer of a width, a
  signed integer of a width, or \<open>Ns\<close>, a byte string cut or zero-padded to \<open>N\<close> bytes.
\<close>

datatype fld = Unsigned nat nat | Signed nat int | Str nat bytes

fun pack_field :: "fld \<Rightarrow> exn + bytes" where
  "pack_field (Unsigned n v) = pack_u n v"
| "pack_field (Signed n v) =
     (if - (256 ^ n div 2) \<le> v \<and> v < 256 ^ n div 2
      then Inr (be_bytes n (nat (v mod 256 ^ n))) else Inl StructError)"
| "pack_field (Str n b) = Inr (take n (b @ replicate n 0))"

fun struct_pack :: "fld list \<Rightarrow> exn + bytes" where
  "struct_pack [] = Inr []"
| "struct_pack (f # fs) =
     (case pack_field f of
        Inl e \<Rightarrow> Inl e
      | Inr b \<Rightarrow> (case struct_pack fs of Inl e \<Rightarrow> Inl e | Inr bs \<Rightarrow> Inr (b @ bs)))"

text \<open>
  The network, as one attempt sees it: what \<open>sendto\<close> and \<open>recvfrom\<close> do, and the random
  numbers that the attempt draws.
\<close>

datatype send_result = Sent | SendTimeout | SendGaierror | SendError
datatype recv_result = Received bytes | RecvTimeout | RecvError

record conn_attempt =
  conn_txn :: nat
  conn_send :: send_result
  conn_recv :: recv_result

record ann_attempt =
  ann_txn :: nat
  ann_rand :: bytes
  ann_key :: nat
  ann_send :: send_result
  ann_recv :: recv_result

text \<open>
  A tracker of the URL list: the attempts of the connect and of the announce exchange
  with it, numbered by the retry counter \<open>count\<close>.
\<close>

record tracker =
  conn_env :: "nat \<Rightarrow> conn_attempt"
  ann_env :: "nat \<Rightarrow> ann_attempt"

text \<open>
  The state that the tracker client changes: the datagrams handed to \<open>sendto\<close>, the
  globals \<open>Interval\<close>, \<open>Seeder\<close>, \<open>Leecher\<close> (unset at first), and the queue of peer lists.
\<close>

record tracker_state =
  sent :: "bytes list"
  swarm :: "(nat \<times> nat \<times> nat) option"
  peer_list :: "(bytes \<times> nat) list list"

text \<open>Lines 81 to 97: the checks of a connect reply.\<close>

definition connect_reply :: "nat \<Rightarrow> bytes \<Rightarrow> nat outcome" where
  "connect_reply transaction_id connection_resp =
     (if length connection_resp < 16 then Raise InvalidConnectionRespone
      else if length connection_resp \<noteq> 16 then Raise StructError
      else (let action_resp = be_nat (slice 0 4 connection_resp);
                transaction_id_resp = be_nat (slice 4 8 connection_resp);
                connection_id_resp = be_nat (slice 8 16 connection_resp)
            in if 0 \<noteq> action_resp then Raise InvalidConnectionRespone
               else if transaction_id \<noteq> transaction_id_resp then Raise InvalidConnectionRespone
               else Return connection_id_resp))"

text \<open>
  \<open>_make_connection_request\<close>. A timeout with \<open>count \<noteq> MAX_TRY\<close> calls the function
  again with \<open>count + 1\<close>, which need not end: the result is \<open>None\<close> then.
\<close>

partial_function (option) make_connection_request ::
  "(nat \<Rightarrow> conn_attempt) \<Rightarrow> nat \<Rightarrow> tracker_state \<Rightarrow> (nat outcome \<times> tracker_state) option" where
  "make_connection_request env count st =
     (case struct_pack [Unsigned 8 protocol_id, Unsigned 4 0, Unsigned 4 (conn_txn (env count))] of
        Inl e \<Rightarrow> Some (Raise e, st)
      | Inr connection_req \<Rightarrow>
          (case conn_send (env count) of
             SendTimeout \<Rightarrow>
               if count = MAX_TRY then Some (Raise TimeoutError, st\<lparr>sent := sent st @ [connection_req]\<rparr>)
               else make_connection_request env (count + 1) (st\<lparr>sent := sent st @ [connection_req]\<rparr>)
           | SendGaierror \<Rightarrow> Some (Raise Gaierror, st\<lparr>sent := sent st @ [connection_req]\<rparr>)
           | SendError \<Rightarrow> Some (SysExit 1, st\<lparr>sent := sent st @ [connection_req]\<rparr>)
           | Sent \<Rightarrow>
               (case conn_recv (env count) of
                  RecvTimeout \<Rightarrow>
                    if count = MAX_TRY
                    then Some (Raise TimeoutError, st\<lparr>sent := sent st @ [connection_req]\<rparr>)
                    else make_connection_request env (count + 1)
                           (st\<lparr>sent := sent st @ [connection_req]\<rparr>)
                | RecvError \<Rightarrow> Some (SysExit 1, st\<lparr>sent := sent st @ [connection_req]\<rparr>)
                | Received connection_resp \<Rightarrow>
                    Some (connect_reply (conn_txn (env count)) connection_resp,
                          st\<lparr>sent := sent st @ [connection_req]\<rparr>))))"

text \<open>
  Lines 131 to 147: the announce request. \<open>downloaded\<close>, \<open>left\<close>, \<open>uploaded\<close>, \<open>event\<close>,
  \<open>ip\<close> and \<open>num_want\<close> are set in the function body; its parameters are the connection
  id, the hash and the total length only.
\<close>

definition announce_req :: "nat \<Rightarrow> nat \<Rightarrow> bytes \<Rightarrow> bytes \<Rightarrow> nat \<Rightarrow> nat \<Rightarrow> exn + bytes" where
  "announce_req connection_id transaction_id info_hash_bytes rand12 total_len key =
     (let peer_id = map of_char ''-TR4003-'' @ rand12;
          port = PORT_NUMBER;
          action = 1;
          downloaded = 0;
          left = total_len;
          uploaded = 0;
          event = 2;
          ip = 0;
          num_want = - 1
      in struct_pack
           [Unsigned 8 connection_id, Unsigned 4 action, Unsigned 4 transaction_id,
            Str 20 info_hash_bytes, Str 20 peer_id,
            Unsigned 8 downloaded, Unsigned 8 left, Unsigned 8 uploaded,
            Unsigned 4 event, Unsigned 4 ip, Unsigned 4 key, Signed 4 num_want,
            Unsigned 2 port])"

text \<open>
  The event field of an announce request: the 4 bytes after the 56 bytes of the
  connection id, action, transaction id, hash and peer id and the 24 bytes of the three
  counters.
\<close>

definition event_field :: "bytes \<Rightarrow> nat" where
  "event_field req = be_nat (slice 80 84 req)"

text \<open>
  Lines 204 to 215: the peer entries. \<open>socket.inet_ntoa\<close> raises \<open>OSError\<close> on a string that
  is not 4 bytes long, \<open>struct.unpack(">H", ...)\<close> raises on one that is not 2 bytes long.
\<close>

function parse_peers :: "bytes \<Rightarrow> nat \<Rightarrow> (bytes \<times> nat) list \<Rightarrow> exn + (bytes \<times> nat) list" where
  "parse_peers announce_resp offset peers =
     (if offset < length announce_resp then
        (let ip_packed = slice offset (offset + 4) announce_resp;
             port_packed = slice (offset + 4) (offset + 6) announce_resp
         in if length ip_packed \<noteq> 4 then Inl OtherError
            else if length port_packed \<noteq> 2 then Inl StructError
            else parse_peers announce_resp (offset + 6) (peers @ [(ip_packed, be_nat port_packed)]))
      else Inr peers)"
  by pat_completeness auto
termination
  by (relation "measure (\<lambda>(r, off, ps). length r - off)") auto

text \<open>Lines 182 to 218: the checks of an announce reply; the globals are set before them.\<close>

definition announce_reply ::
  "nat \<Rightarrow> bytes \<Rightarrow> tracker_state \<Rightarrow> (bytes \<times> nat) list outcome \<times> tracker_state" where
  "announce_reply transaction_id announce_resp st =
     (if length announce_resp < 20 then (Raise InvalidAnnounceRespone, st)
      else (let action_resp = be_nat (slice 0 4 announce_resp);
                transaction_id_resp = be_nat (slice 4 8 announce_resp);
                interval = be_nat (slice 8 12 announce_resp);
                leechers = be_nat (slice 12 16 announce_resp);
                seeders = be_nat (slice 16 20 announce_resp);
                st' = st\<lparr>swarm := Some (interval, seeders, leechers)\<rparr>
            in if 1 \<noteq> action_resp then (Raise InvalidAnnounceRespone, st')
               else if transaction_id \<noteq> transaction_id_resp then (Raise InvalidAnnounceRespone, st')
               else (case parse_peers announce_resp 20 [] of
                       Inl e \<Rightarrow> (Raise e, st')
                     | Inr peers \<Rightarrow> (Return peers, st'))))"

text \<open>\<open>_make_announce_request\<close>; the request is packed before the first \<open>try\<close>.\<close>

partial_function (option) make_announce_request ::
  "nat \<Rightarrow> bytes \<Rightarrow> nat \<Rightarrow> (nat \<Rightarrow> ann_attempt) \<Rightarrow> nat \<Rightarrow> tracker_state
     \<Rightarrow> ((bytes \<times> nat) list outcome \<times> tracker_state) option" where
  "make_announce_request connection_id info_hash_bytes total_len env count st =
     (case announce_req connection_id (ann_txn (env count)) info_hash_bytes
             (ann_rand (env count)) total_len (ann_key (env count)) of
        Inl e \<Rightarrow> Some (Raise e, st)
      | Inr announce \<Rightarrow>
          (case ann_send (env count) of
             SendTimeout \<Rightarrow>
               if count = MAX_TRY then Some (Raise TimeoutError, st\<lparr>sent := sent st @ [announce]\<rparr>)
               else make_announce_request connection_id info_hash_bytes total_len env (count + 1)
                      (st\<lparr>sent := sent st @ [announce]\<rparr>)
           | SendGaierror \<Rightarrow> Some (Raise Gaierror, st\<lparr>sent := sent st @ [announce]\<rparr>)
           | SendError \<Rightarrow> Some (SysExit 1, st\<lparr>sent := sent st @ [announce]\<rparr>)
           | Sent \<Rightarrow>
               (case ann_recv (env count) of
                  RecvTimeout \<Rightarrow>
                    if count = MAX_TRY
                    then Some (Raise TimeoutError, st\<lparr>sent := sent st @ [announce]\<rparr>)
                    else make_announce_request connection_id info_hash_bytes total_len env
                           (count + 1) (st\<lparr>sent := sent st @ [announce]\<rparr>)
                | RecvError \<Rightarrow> Some (SysExit 1, st\<lparr>sent := sent st @ [announce]\<rparr>)
                | Received announce_resp \<Rightarrow>
                    Some (announce_reply (ann_txn (env count)) announce_resp
                            (st\<lparr>sent := sent st @ [announce]\<rparr>)))))"

text \<open>
  The handlers of the connect step (lines 274 to 285) and of the announce step (lines
  291 to 298): the exceptions after which the loop goes on to the next URL. Any other
  exception reaches \<open>except Exception\<close> and \<open>sys.exit(1)\<close>.
\<close>

definition connect_continues :: "exn \<Rightarrow> bool" where
  "connect_continues e = (e = Gaierror \<or> e = TimeoutError \<or> e = InvalidAnnounceRespone)"

definition announce_continues :: "exn \<Rightarrow> bool" where
  "announce_continues e = (e = TimeoutError \<or> e = InvalidAnnounceRespone)"

text \<open>
  The loop of \<open>get_peers_list\<close> over the tracker URLs (lines 264 to 298). The lines before
  it read the URLs and the total length off the metadata; they are the arguments here.
\<close>

fun get_peers_list ::
  "bytes \<Rightarrow> nat \<Rightarrow> tracker list \<Rightarrow> tracker_state \<Rightarrow> (unit outcome \<times> tracker_state) option" where
  "get_peers_list info_hash_bytes total_len [] st = Some (Return (), st)"
| "get_peers_list info_hash_bytes total_len (t # ts) st =
     (case make_connection_request (conn_env t) 1 st of
        None \<Rightarrow> None
      | Some (Raise e, st1) \<Rightarrow>
          if connect_continues e then get_peers_list info_hash_bytes total_len ts st1
          else Some (SysExit 1, st1)
      | Some (SysExit n, st1) \<Rightarrow> Some (SysExit n, st1)
      | Some (Return connection_id, st1) \<Rightarrow>
          (case make_announce_request connection_id info_hash_bytes total_len (ann_env t) 1 st1 of
             None \<Rightarrow> None
           | Some (Raise e, st2) \<Rightarrow>
               if announce_continues e then get_peers_list info_hash_bytes total_len ts st2
               else Some (SysExit 1, st2)
           | Some (SysExit n, st2) \<Rightarrow> Some (SysExit n, st2)
           | Some (Return peers, st2) \<Rightarrow>
               get_peers_list info_hash_bytes total_len ts
                 (st2\<lparr>peer_list := peer_list st2 @ [peers]\<rparr>)))"

text \<open>
  \<open>populate_peers\<close> of \<open>master.py\<close> never returns: it calls \<open>get_peers_list\<close>, reads the
  globals (a \<open>NameError\<close> while no announce reply has set them) and sleeps, for ever. This
  is its state after a number of rounds; the trackers of a round are those of the URL
  list with the network as it is in that round.
\<close>

fun populate_peers ::
  "nat \<Rightarrow> bytes \<Rightarrow> nat \<Rightarrow> (nat \<Rightarrow> tracker list) \<Rightarrow> nat \<Rightarrow> tracker_state
     \<Rightarrow> (unit outcome \<times> tracker_state) option" where
  "populate_peers 0 info_hash_bytes total_len trackers round st = Some (Return (), st)"
| "populate_peers (Suc n) info_hash_bytes total_len trackers round st =
     (case get_peers_list info_hash_bytes total_len (trackers round) st of
        None \<Rightarrow> None
      | Some (Return u, st1) \<Rightarrow>
          (case swarm st1 of
             None \<Rightarrow> Some (Raise OtherError, st1)
           | Some stats \<Rightarrow> populate_peers n info_hash_bytes total_len trackers (round + 1) st1)
      | Some (r, st1) \<Rightarrow> Some (r, st1))"

definition no_traffic :: tracker_state where
  "no_traffic = \<lparr>sent = [], swarm = None, peer_list = []\<rparr>"

section \<open>Example inputs\<close>

text \<open>A torrent of two pieces with the given digests, and three peers: the first has both
  pieces, the others have piece 0.\<close>

definition two_pieces :: "bytes \<Rightarrow> bytes \<Rightarrow> TorrentDetails" where
  "two_pieces h0 h1 = \<lparr>td_piece_length = 4, td_total_length = 8, td_num_of_pieces = 2, td_hash_of_pieces = [h0, h1]\<rparr>"

definition three_peers :: "nat \<Rightarrow> nat list" where
  "three_peers sid = (if sid = 0 then [0, 1] else [0])"

text \<open>The fresh ledger of that torrent after a session has claimed both pieces.\<close>

definition claimed_ledger :: ResumeData where
  "claimed_ledger = (fresh_ledger 2)\<lparr>claimed_pieces := {0, 1}\<rparr>"

text \<open>
  A single-file torrent of 40000 bytes in pieces of 16384 bytes: three pieces, the last
  of 7232 bytes. The message is the \<open>piece\<close> message for piece 2 at offset 0 with a block
  of 7232 bytes (length prefix \<open>9 + 7232 = 0x1C49\<close>).
\<close>

definition s1_torrent :: "bytes list \<Rightarrow> TorrentDetails" where
  "s1_torrent hs =
     \<lparr>td_piece_length = 16384, td_total_length = 40000, td_num_of_pieces = 3,
      td_hash_of_pieces = hs\<rparr>"

definition last_piece_msg :: "bytes \<Rightarrow> bytes" where
  "last_piece_msg blk = [0, 0, 0x1C, 0x49, 7, 0, 0, 0, 2, 0, 0, 0, 0] @ blk"

text \<open>A \<open>bitfield\<close> message of one byte that announces piece 0.\<close>

definition bitfield_msg :: bytes where
  "bitfield_msg = [0, 0, 0, 2, 5, 0x80]"

text \<open>A resume record with two of three pieces verified and piece 1 claimed.\<close>

definition resume_example :: ResumeData where
  "resume_example =
     \<lparr>info_hash = ''ab'', piece_length = 16384, total_pieces = 3, downloaded = 2,
      file_sizes = [40000], mtime = 1700000000, verified_pieces = [True, False, True],
      last_active = ''2024-01-01T00:00:00Z'', claimed_pieces = {1}\<rparr>"

text \<open>
  A connect reply with action 0, the given transaction id and connection id 99; an
  announce reply with action 1, transaction id 8, interval 1800, 3 leechers, 4 seeders
  and the peer 10.0.0.1:6881.
\<close>

definition connect_resp :: "nat \<Rightarrow> bytes" where
  "connect_resp txn = [0, 0, 0, 0] @ be_bytes 4 txn @ [0, 0, 0, 0, 0, 0, 0, 99]"

definition announce_resp_one_peer :: bytes where
  "announce_resp_one_peer =
     [0, 0, 0, 1] @ [0, 0, 0, 8] @ [0, 0, 7, 8] @ [0, 0, 0, 3] @ [0, 0, 0, 4]
     @ [10, 0, 0, 1, 0x1A, 0xE1]"

text \<open>
  A tracker that answers both requests well (the client draws the transaction ids 7 and
  8), and one whose connect reply carries another transaction id than the request.
\<close>

definition healthy_announce :: "nat \<Rightarrow> ann_attempt" where
  "healthy_announce count =
     \<lparr>ann_txn = 8, ann_rand = replicate 12 0, ann_key = 5, ann_send = Sent,
      ann_recv = Received announce_resp_one_peer\<rparr>"

definition good_tracker :: tracker where
  "good_tracker =
     \<lparr>conn_env = (\<lambda>count. \<lparr>conn_txn = 7, conn_send = Sent, conn_recv = Received (connect_resp 7)\<rparr>),
      ann_env = healthy_announce\<rparr>"

definition bad_txn_tracker :: tracker where
  "bad_txn_tracker =
     \<lparr>conn_env = (\<lambda>count. \<lparr>conn_txn = 7, conn_send = Sent, conn_recv = Received (connect_resp 8)\<rparr>),
      ann_env = healthy_announce\<rparr>"

definition every_round_good :: "nat \<Rightarrow> tracker list" where
  "every_round_good round = [good_tracker]"

text \<open>The announce requests among the datagrams of a run: those of 98 bytes.\<close>

definition announces :: "(unit outcome \<times> tracker_state) option \<Rightarrow> bytes list" where
  "announces r = (case r of None \<Rightarrow> [] | Some (out, st) \<Rightarrow> filter (\<lambda>d. length d = 98) (sent st))"

definition hash7 :: bytes where "hash7 = replicate 20 7"

text \<open>
  The connect request with a transaction id, and the announce request for connection id
  99, transaction id 8, the hash of twenty 7s, 40000 bytes left and key 5, field by field.
\<close>

definition connect_example :: "nat \<Rightarrow> bytes" where
  "connect_example txn = [0, 0, 4, 0x17, 0x27, 0x10, 0x19, 0x80] @ [0, 0, 0, 0] @ be_bytes 4 txn"

definition announce_example :: bytes where
  "announce_example =
     [0, 0, 0, 0, 0, 0, 0, 99] @ [0, 0, 0, 1] @ [0, 0, 0, 8]
     @ replicate 20 7
     @ map of_char ''-TR4003-'' @ replicate 12 0
     @ [0, 0, 0, 0, 0, 0, 0, 0] @ [0, 0, 0, 0, 0, 0, 0x9C, 0x40] @ [0, 0, 0, 0, 0, 0, 0, 0]
     @ [0, 0, 0, 2] @ [0, 0, 0, 0] @ [0, 0, 0, 5] @ [255, 255, 255, 255] @ [0x1A, 0xE1]"

section \<open>The codec\<close>

lemma be_nat4:
  "length bs = 4 \<Longrightarrow>
   be_nat bs = unat (bs ! 0) * 2 ^ 24 + unat (bs ! 1) * 2 ^ 16 + unat (bs ! 2) * 2 ^ 8 + unat (bs ! 3)"
proof -
  assume len: "length bs = 4"
  then obtain a as where 1: "bs = a # as" "length as = 3" by (cases bs) auto
  then obtain b bs' where 2: "as = b # bs'" "length bs' = 2" by (cases as) auto
  then obtain c cs where 3: "bs' = c # cs" "length cs = 1" by (cases bs') auto
  then obtain d where 4: "cs = [d]" by (cases cs) auto
  show ?thesis using 1 2 3 4 by (simp add: be_nat_def)
qed

text \<open>
  Claim C10. \<open>parse_message\<close> is total: for every byte string it returns a
  \<open>ParsedMessage\<close> and raises nothing. The size is the big-endian unsigned value of the
  first four bytes when there are at least 4 bytes and \<open>None\<close> otherwise; the id is the
  fifth byte read as a signed byte when there are at least 5 bytes and \<open>None\<close> otherwise;
  the payload is everything from the sixth byte on when there are at least 6 bytes and
  \<open>None\<close> otherwise. So a 4-byte keep-alive has no id, and a 5-byte frame has no payload.
\<close>

theorem parse_message_total:
  "\<exists>m. parse_message pkt = Inr m
     \<and> msg_size m = (if 4 \<le> length pkt
          then Some (unat (pkt ! 0) * 2 ^ 24 + unat (pkt ! 1) * 2 ^ 16 + unat (pkt ! 2) * 2 ^ 8 + unat (pkt ! 3))
          else None)
     \<and> msg_id m = (if 5 \<le> length pkt then Some (sint (pkt ! 4)) else None)
     \<and> payload m = (if 6 \<le> length pkt then Some (drop 5 pkt) else None)"
proof -
  have s: "4 \<le> length pkt \<Longrightarrow> unpack_I (slice 0 4 pkt) = Inr (unat (pkt ! 0) * 2 ^ 24 + unat (pkt ! 1) * 2 ^ 16 + unat (pkt ! 2) * 2 ^ 8 + unat (pkt ! 3))"
    by (simp add: unpack_I_def slice_def be_nat4)
  have i: "5 \<le> length pkt \<Longrightarrow> unpack_b (slice 4 5 pkt) = Inr (sint (pkt ! 4))"
    by (simp add: unpack_b_def slice_def take_Suc hd_drop_conv_nth split: list.splits)
  show ?thesis
    using s i by (auto simp: parse_message_def not_less)
qed

text \<open>
  The statement at a keep-alive, at an unchoke and at a \<open>have\<close> of piece 9.
\<close>

theorem parse_message_total_witness:
  "parse_message [0, 0, 0, 0] = Inr \<lparr>msg_size = Some 0, msg_id = None, payload = None\<rparr>
   \<and> parse_message [0, 0, 0, 1, 1] = Inr \<lparr>msg_size = Some 1, msg_id = Some 1, payload = None\<rparr>
   \<and> parse_message [0, 0, 0, 5, 4, 0, 0, 0, 9]
       = Inr \<lparr>msg_size = Some 5, msg_id = Some 4, payload = Some [0, 0, 0, 9]\<rparr>"
  using parse_message_total [of "[0, 0, 0, 0]"] parse_message_total [of "[0, 0, 0, 1, 1]"]
    parse_message_total [of "[0, 0, 0, 5, 4, 0, 0, 0, 9]"]
  by auto

text \<open>
  Claim C4. \<open>is_handshake(pkt, h)\<close> is \<open>True\<close> exactly when the packet has 68 bytes, its
  first byte is 19, bytes 1 to 19 are \<open>BitTorrent protocol\<close> and bytes 28 to 47 are \<open>h\<close>;
  it never raises. Two packets of one length that agree on bytes 0 to 19 and on bytes 28
  to 47 get the same answer: the 8 reserved bytes and the peer id have no influence.
\<close>

theorem is_handshake_iff:
  "is_handshake pkt h
     = Inr (length pkt = 68 \<and> pkt ! 0 = 19 \<and> slice 1 20 pkt = pstr \<and> slice 28 48 pkt = h)
   \<and> (length pkt' = length pkt \<and> slice 0 20 pkt' = slice 0 20 pkt
        \<and> slice 28 48 pkt' = slice 28 48 pkt
      \<longrightarrow> is_handshake pkt' h = is_handshake pkt h)"
proof -
  have iff: "is_handshake p h
     = Inr (length p = 68 \<and> p ! 0 = 19 \<and> slice 1 20 p = pstr \<and> slice 28 48 p = h)" for p
  proof -
    have u: "(unat (p ! 0) = 19) = (p ! 0 = 19)"
      by (simp add: word_unat_eq_iff)
    show ?thesis
      by (simp add: is_handshake_def unpack_handshake_def u)
  qed
  have same: "is_handshake pkt' h = is_handshake pkt h"
    if len: "length pkt' = length pkt" and pre: "slice 0 20 pkt' = slice 0 20 pkt"
      and ih: "slice 28 48 pkt' = slice 28 48 pkt"
  proof (cases "length pkt = 68")
    case True
    have t: "take 20 pkt' = take 20 pkt" using pre by (simp add: slice_def)
    have "pkt' ! 0 = take 20 pkt' ! 0" by simp
    also have "\<dots> = pkt ! 0" using t by simp
    finally have b0: "pkt' ! 0 = pkt ! 0" .
    have "slice 1 20 pkt' = drop 1 (take 20 pkt')" by (simp add: slice_def drop_take)
    also have "\<dots> = slice 1 20 pkt" using t by (simp add: slice_def drop_take)
    finally have p: "slice 1 20 pkt' = slice 1 20 pkt" .
    show ?thesis using len b0 p ih by (simp add: iff)
  next
    case False
    then show ?thesis using len by (simp add: iff)
  qed
  show ?thesis using iff same by blast
qed

text \<open>
  Two handshakes for the hash of twenty 7s that differ in the reserved bytes and in the
  peer id: both are accepted.
\<close>

theorem is_handshake_iff_witness:
  "is_handshake
     (19 # pstr @ replicate 8 0 @ replicate 20 7 @ replicate 20 1) (replicate 20 7) = Inr True
   \<and> is_handshake
     (19 # pstr @ replicate 8 255 @ replicate 20 7 @ replicate 20 2) (replicate 20 7) = Inr True"
  using is_handshake_iff [of "19 # pstr @ replicate 8 0 @ replicate 20 7 @ replicate 20 1" "replicate 20 7"
      "19 # pstr @ replicate 8 255 @ replicate 20 7 @ replicate 20 2"]
  by (simp add: slice_def pstr_def)

section \<open>The bitfield handler\<close>

text \<open>
  What the handler computes, for every payload and every list of verified bits: the
  pieces that the peer has and that are not verified, among the indices whose whole
  byte lies below the number of pieces. A byte that reaches to or past the number of
  pieces contributes nothing.
\<close>

lemma drop_bit_and_1: "(drop_bit n (b :: byte) AND 1 \<noteq> 0) = (drop_bit n b AND 1 = 1)"
  by (metis and_one_eq even_iff_mod_2_eq_zero odd_iff_mod_2_eq_one one_and_eq zero_neq_one and.commute)

lemma bitfield_bits_partial:
  "length v \<le> byte_index * 8 + 7 \<Longrightarrow> bitfield_bits byte_index b v (0 # bits) acc = acc"
  by simp

lemma bitfield_bits_full:
  assumes "byte_index * 8 + 7 < length v" and "\<forall>n \<in> set bits. n \<le> 7"
  shows "set (bitfield_bits byte_index b v bits acc) =
           set acc \<union> {byte_index * 8 + (7 - n) | n.
                         n \<in> set bits \<and> drop_bit n b AND 1 = 1 \<and> \<not> v ! (byte_index * 8 + (7 - n))}"
  using assms
proof (induction bits arbitrary: acc)
  case Nil
  then show ?case by simp
next
  case (Cons n bits)
  have lt: "byte_index * 8 + (7 - n) < length v" using Cons.prems by simp
  have IH: "set (bitfield_bits byte_index b v bits acc') =
           set acc' \<union> {byte_index * 8 + (7 - n) | n.
                         n \<in> set bits \<and> drop_bit n b AND 1 = 1 \<and> \<not> v ! (byte_index * 8 + (7 - n))}"
    for acc' using Cons.IH Cons.prems by simp
  show ?case
  proof (cases "drop_bit n b AND 1 = 1 \<and> \<not> v ! (byte_index * 8 + (7 - n))")
    case True
    then have "bitfield_bits byte_index b v (n # bits) acc
        = bitfield_bits byte_index b v bits (acc @ [byte_index * 8 + (7 - n)])"
      using lt by (simp add: drop_bit_and_1)
    then show ?thesis using True by (auto simp: IH)
  next
    case False
    then have "bitfield_bits byte_index b v (n # bits) acc = bitfield_bits byte_index b v bits acc"
      using lt by (auto simp: drop_bit_and_1)
    then show ?thesis using False by (auto simp: IH)
  qed
qed

lemma bitfield_byte:
  "set (bitfield_bits k b v [0..<8] acc) =
     set acc \<union> {i. i div 8 = k \<and> k * 8 + 7 < length v
                    \<and> drop_bit (7 - i mod 8) b AND 1 = 1 \<and> \<not> v ! i}"
proof (cases "k * 8 + 7 < length v")
  case True
  have AB: "{k * 8 + (7 - n) | n. n \<in> set [0..<8] \<and> drop_bit n b AND 1 = 1 \<and> \<not> v ! (k * 8 + (7 - n))}
      = {i. i div 8 = k \<and> drop_bit (7 - i mod 8) b AND 1 = 1 \<and> \<not> v ! i}" (is "?A = ?B")
  proof
    show "?A \<subseteq> ?B"
    proof
      fix i assume "i \<in> ?A"
      then obtain n where n: "i = k * 8 + (7 - n)" "n < 8" "drop_bit n b AND 1 = 1"
        "\<not> v ! (k * 8 + (7 - n))" by auto
      define m where "m = 7 - n"
      have m: "i = k * 8 + m" "m < 8" using n(1,2) by (simp_all add: m_def)
      have d: "i div 8 = k" and r: "i mod 8 = m" unfolding m(1) using m(2) by simp_all
      have nm: "7 - m = n" using n(2) by (simp add: m_def)
      have "drop_bit (7 - i mod 8) b AND 1 = 1" unfolding r nm by (rule n(3))
      moreover have "\<not> v ! i" using n(4) unfolding n(1) .
      ultimately show "i \<in> ?B" using d by simp
    qed
    show "?B \<subseteq> ?A"
    proof
      fix i assume "i \<in> ?B"
      then have i: "i div 8 = k" "drop_bit (7 - i mod 8) b AND 1 = 1" "\<not> v ! i" by simp_all
      define n where "n = 7 - i mod 8"
      have lt: "i mod 8 < 8" by simp
      have bk: "7 - n = i mod 8" using lt unfolding n_def by linarith
      have "i = i div 8 * 8 + i mod 8" by simp
      then have e: "i = k * 8 + (7 - n)" unfolding bk i(1) .
      have "n \<in> set [0..<8]" unfolding n_def by simp
      moreover have "drop_bit n b AND 1 = 1" using i(2) unfolding n_def .
      moreover have "\<not> v ! (k * 8 + (7 - n))" using i(3) e by simp
      ultimately show "i \<in> ?A" using e by blast
    qed
  qed
  have small: "\<forall>n \<in> set [0..<8]. n \<le> (7 :: nat)" by simp
  have "set (bitfield_bits k b v [0..<8] acc) = set acc \<union> ?A"
    by (rule bitfield_bits_full [OF True small])
  also have "\<dots> = set acc \<union> ?B" by (simp only: AB)
  also have "?B = {i. i div 8 = k \<and> k * 8 + 7 < length v
                    \<and> drop_bit (7 - i mod 8) b AND 1 = 1 \<and> \<not> v ! i}"
    using True by simp
  finally show ?thesis .
next
  case False
  have u: "[0..<8] = 0 # [Suc 0..<8]" by (rule upt_conv_Cons) simp
  have a: "bitfield_bits k b v [0..<8] acc = acc"
    unfolding u using False by (intro bitfield_bits_partial) simp
  have e: "{i. i div 8 = k \<and> k * 8 + 7 < length v
                    \<and> drop_bit (7 - i mod 8) b AND 1 = 1 \<and> \<not> v ! i} = {}"
    using False by simp
  show ?thesis unfolding a e by simp
qed

lemma bitfield_bytes_set:
  "set (bitfield_bytes k p v acc) =
     set acc \<union> {i. k \<le> i div 8 \<and> i div 8 < k + length p \<and> (i div 8) * 8 + 7 < length v
                    \<and> drop_bit (7 - i mod 8) (p ! (i div 8 - k)) AND 1 = 1 \<and> \<not> v ! i}"
proof (induction p arbitrary: k acc)
  case Nil
  then show ?case by auto
next
  case (Cons b rest)
  have "{i. k \<le> i div 8 \<and> i div 8 < k + length (b # rest) \<and> (i div 8) * 8 + 7 < length v
            \<and> drop_bit (7 - i mod 8) ((b # rest) ! (i div 8 - k)) AND 1 = 1 \<and> \<not> v ! i}
      = {i. i div 8 = k \<and> k * 8 + 7 < length v \<and> drop_bit (7 - i mod 8) b AND 1 = 1 \<and> \<not> v ! i}
        \<union> {i. k + 1 \<le> i div 8 \<and> i div 8 < k + 1 + length rest \<and> (i div 8) * 8 + 7 < length v
            \<and> drop_bit (7 - i mod 8) (rest ! (i div 8 - (k + 1))) AND 1 = 1 \<and> \<not> v ! i}"
    (is "?L = ?A \<union> ?B")
  proof
    show "?L \<subseteq> ?A \<union> ?B"
    proof
      fix i assume i: "i \<in> ?L"
      show "i \<in> ?A \<union> ?B"
      proof (cases "i div 8 = k")
        case True
        with i show ?thesis by simp
      next
        case False
        with i have "k + 1 \<le> i div 8" by simp
        moreover from this have "(b # rest) ! (i div 8 - k) = rest ! (i div 8 - (k + 1))"
          by (simp add: nth_Cons')
        ultimately show ?thesis using i by simp
      qed
    qed
    show "?A \<union> ?B \<subseteq> ?L"
    proof
      fix i assume "i \<in> ?A \<union> ?B"
      then show "i \<in> ?L"
      proof
        assume "i \<in> ?A"
        then show ?thesis by simp
      next
        assume i: "i \<in> ?B"
        then have "(b # rest) ! (i div 8 - k) = rest ! (i div 8 - (k + 1))"
          by (simp add: nth_Cons')
        with i show ?thesis by simp
      qed
    qed
  qed
  then show ?case
    using Cons.IH [of "k + 1" "bitfield_bits k b v [0..<8] acc"] bitfield_byte [of k b v acc]
    by (simp del: bitfield_bits.simps add: Un_assoc)
qed

lemma bitfield_handler_set:
  assumes "payload m = Some p"
  shows "\<exists>r. bitfield_handler m v = Inr r
           \<and> set r = {i. i div 8 < length p \<and> (i div 8) * 8 + 7 < length v
                        \<and> bitfield_bit p i \<and> \<not> v ! i}"
  using assms bitfield_bytes_set [of 0 p v "[]"]
  by (simp add: bitfield_handler_def bitfield_bit_def)

text \<open>
  Claim C3, at a torrent of 3 pieces, none verified, and a peer whose bitfield \<open>0xE0\<close>
  announces all three. The loop visits the bits of a byte from piece index
  \<open>8 * byte_index + 7\<close> downwards and leaves the byte with \<open>break\<close> at the first index
  that is not below the number of pieces, so it visits no piece of a final partial
  byte: the handler returns the empty list, while the pieces that the peer has and that
  are not verified are 0, 1 and 2.
\<close>

theorem bitfield_handler_partial_byte:
  "bitfield_handler \<lparr>msg_size = Some 2, msg_id = Some 5, payload = Some [0xE0]\<rparr>
     [False, False, False] = Inr []
   \<and> {i. i < 3 \<and> bitfield_bit [0xE0] i \<and> \<not> [False, False, False] ! i} = {0, 1, 2}"
proof -
  have "bitfield_handler \<lparr>msg_size = Some 2, msg_id = Some 5, payload = Some [0xE0]\<rparr>
     [False, False, False] = Inr []"
    by (simp add: bitfield_handler_def upt_conv_Cons)
  moreover have "{i. i < 3 \<and> bitfield_bit [0xE0] i \<and> \<not> [False, False, False] ! i} = {0, 1, 2}"
  proof -
    have "i < 3 \<Longrightarrow> i = 0 \<or> i = 1 \<or> i = 2" for i :: nat by arith
    moreover have "bitfield_bit [0xE0] 0" "bitfield_bit [0xE0] 1" "bitfield_bit [0xE0] 2"
      by (simp_all add: bitfield_bit_def)
    ultimately show ?thesis by (auto simp: nth_Cons')
  qed
  ultimately show ?thesis by simp
qed

section \<open>The ledger\<close>

text \<open>
  Every step of the claim loop leaves the verified bits and the counter alone and adds to
  the claimed set only indices of pieces that are not verified.
\<close>

lemma claim_loop_fields:
  "claim_loop avail claimed rd = (e, claimed', rd') \<Longrightarrow>
   verified_pieces rd' = verified_pieces rd \<and> downloaded rd' = downloaded rd
   \<and> claimed_pieces rd \<subseteq> claimed_pieces rd'
   \<and> claimed_pieces rd' - claimed_pieces rd
        \<subseteq> {i. i < length (verified_pieces rd) \<and> \<not> verified_pieces rd ! i}"
proof (induction avail arbitrary: claimed rd)
  case Nil
  then show ?case by simp
next
  case (Cons i avail)
  show ?case
  proof (cases "length claimed \<ge> MAX_CLAIM_PER_PEER \<or> i \<ge> length (verified_pieces rd)")
    case True
    with Cons.prems show ?thesis by (auto split: if_splits)
  next
    case False
    show ?thesis
    proof (cases "\<not> verified_pieces rd ! i \<and> i \<notin> claimed_pieces rd")
      case True
      with False Cons.prems
      have "claim_loop avail (claimed @ [i]) (rd\<lparr>claimed_pieces := insert i (claimed_pieces rd)\<rparr>)
              = (e, claimed', rd')" by simp
      from Cons.IH [OF this] False True show ?thesis by auto
    next
      case F2: False
      with False Cons.prems have "claim_loop avail claimed rd = (e, claimed', rd')" by auto
      from Cons.IH [OF this] show ?thesis .
    qed
  qed
qed

lemma claim_loop_unverified:
  assumes "claim_loop avail claimed rd = (e, claimed', rd')" and "claims_unverified rd"
  shows "claims_unverified rd'"
  using claim_loop_fields [OF assms(1)] assms(2)
  by (auto simp: claims_unverified_def verified_set_def)

lemma claim_loop_inv:
  assumes "claim_loop avail claimed rd = (e, claimed', rd')" and "ledger_inv rd"
  shows "ledger_inv rd'"
  using claim_loop_fields [OF assms(1)] claim_loop_unverified [OF assms(1)] assms(2)
  by (simp add: ledger_inv_def)

lemma release_unverified: "claims_unverified rd \<Longrightarrow> claims_unverified (release claimed rd)"
  by (auto simp: claims_unverified_def release_def verified_set_def)

lemma release_inv: "ledger_inv rd \<Longrightarrow> ledger_inv (release claimed rd)"
  using release_unverified [of rd claimed] by (simp add: ledger_inv_def release_def)

lemma popcount_set_True:
  "i < length v \<Longrightarrow> \<not> v ! i \<Longrightarrow> popcount (v[i := True]) = popcount v + 1"
proof (induction v arbitrary: i)
  case Nil
  then show ?case by simp
next
  case (Cons b v)
  then show ?case by (cases i) (auto simp: popcount_def)
qed

lemma finish_piece_unverified:
  assumes "finish_piece sha1 td i piece_data rd = Inr rd'" and "claims_unverified rd"
  shows "claims_unverified rd'"
  using assms
  by (auto simp: finish_piece_def claims_unverified_def verified_set_def nth_list_update
      split: if_splits)

text \<open>
  The commit keeps the counter equal to the number of verified pieces when the piece is
  still in the claimed set, hence not verified yet.
\<close>

lemma finish_piece_inv:
  assumes "finish_piece sha1 td i piece_data rd = Inr rd'" and "ledger_inv rd"
    and "i \<in> claimed_pieces rd"
  shows "ledger_inv rd'"
proof -
  have nv: "i < length (verified_pieces rd) \<Longrightarrow> \<not> verified_pieces rd ! i"
    using assms(2,3) by (auto simp: ledger_inv_def claims_unverified_def verified_set_def)
  have c: "claims_unverified rd'"
    using finish_piece_unverified [OF assms(1)] assms(2) by (simp add: ledger_inv_def)
  have "downloaded rd' = popcount (verified_pieces rd')"
    using assms(1,2) nv
    by (auto simp: finish_piece_def ledger_inv_def popcount_set_True split: if_splits)
  with c show ?thesis by (simp add: ledger_inv_def)
qed

lemma fresh_inv: "ledger_inv (fresh_ledger n)"
  by (simp add: ledger_inv_def claims_unverified_def fresh_ledger_def verified_set_def popcount_def)

text \<open>
  The first part of the invariant holds in every state that the sessions can reach: no
  claimed piece is verified.
\<close>

lemma step_unverified:
  assumes "step sha1 td e s = Some s'" and "claims_unverified (ledger s)"
  shows "claims_unverified (ledger s')"
proof (cases e)
  case (Claim sid)
  obtain ex cl rd where c: "claim_loop (available (sessions s sid)) [] (ledger s) = (ex, cl, rd)"
    by (metis prod_cases3)
  have d: "claims_unverified rd"
    using claim_loop_unverified [OF c assms(2)] .
  then have d': "claims_unverified (release cl rd)"
    by (rule release_unverified)
  show ?thesis
    using assms(1) Claim c d d'
    by (auto simp: set_phase_def split: phase.splits option.splits if_splits)
next
  case (PieceDone sid piece_data)
  show ?thesis
    using assms PieceDone release_unverified finish_piece_unverified
    by (auto simp: set_phase_def split: phase.splits list.splits sum.splits)
next
  case (Fail sid)
  show ?thesis
    using assms Fail release_unverified
    by (auto simp: set_phase_def split: phase.splits list.splits)
qed

lemma run_unverified:
  "run sha1 td es s = Some s' \<Longrightarrow> claims_unverified (ledger s) \<Longrightarrow> claims_unverified (ledger s')"
proof (induction es arbitrary: s)
  case Nil
  then show ?case by simp
next
  case (Cons e es)
  then show ?case by (auto split: option.splits dest: step_unverified)
qed

lemma reachable_claims_unverified:
  "run sha1 td es (fresh_system n avail) = Some s \<Longrightarrow> claims_unverified (ledger s)"
  using run_unverified [of sha1 td es "fresh_system n avail" s] fresh_inv [of n]
  by (simp add: fresh_system_def ledger_inv_def)

text \<open>
  While a single session acts on the ledger, the whole invariant holds at every point
  that it reaches from the fresh state.
\<close>

lemma claim_loop_held:
  "claim_loop avail claimed rd = (e, claimed', rd') \<Longrightarrow> distinct claimed
   \<Longrightarrow> set claimed \<subseteq> claimed_pieces rd
   \<Longrightarrow> distinct claimed' \<and> set claimed' \<subseteq> claimed_pieces rd'"
proof (induction avail arbitrary: claimed rd)
  case Nil
  then show ?case by simp
next
  case (Cons i avail)
  show ?case
  proof (cases "length claimed \<ge> MAX_CLAIM_PER_PEER \<or> i \<ge> length (verified_pieces rd)")
    case True
    with Cons.prems show ?thesis by (auto split: if_splits)
  next
    case False
    show ?thesis
    proof (cases "\<not> verified_pieces rd ! i \<and> i \<notin> claimed_pieces rd")
      case True
      with False Cons.prems
      have c: "claim_loop avail (claimed @ [i]) (rd\<lparr>claimed_pieces := insert i (claimed_pieces rd)\<rparr>)
              = (e, claimed', rd')" by simp
      have "distinct (claimed @ [i])" using Cons.prems(2,3) True by auto
      moreover have "set (claimed @ [i])
          \<subseteq> claimed_pieces (rd\<lparr>claimed_pieces := insert i (claimed_pieces rd)\<rparr>)"
        using Cons.prems(3) by auto
      ultimately show ?thesis using Cons.IH [OF c] by simp
    next
      case F2: False
      with False Cons.prems have "claim_loop avail claimed rd = (e, claimed', rd')" by auto
      from Cons.IH [OF this Cons.prems(2,3)] show ?thesis .
    qed
  qed
qed

lemma finish_piece_claimed:
  "finish_piece sha1 td i piece_data rd = Inr rd' \<Longrightarrow> claimed_pieces rd' = claimed_pieces rd - {i}"
  by (auto simp: finish_piece_def split: if_splits)

lemma own_step_inv:
  assumes st: "step sha1 td e s = Some s'" and sid: "event_sid e = sid"
    and inv: "ledger_inv (ledger s)" and held: "batch_held sid s"
  shows "ledger_inv (ledger s') \<and> batch_held sid s'"
proof (cases e)
  case (Claim x)
  then have x: "x = sid" using sid by simp
  obtain ex cl rd where c: "claim_loop (available (sessions s sid)) [] (ledger s) = (ex, cl, rd)"
    by (metis prod_cases3)
  have i: "ledger_inv rd" using claim_loop_inv [OF c inv] .
  have h: "distinct cl \<and> set cl \<subseteq> claimed_pieces rd" using claim_loop_held [OF c] by simp
  show ?thesis
    using st Claim x c i h release_inv [OF i, of cl]
    by (auto simp: set_phase_def batch_held_def split: phase.splits option.splits if_splits)
next
  case (PieceDone x piece_data)
  then have x: "x = sid" using sid by simp
  from st PieceDone x obtain claimed i rest where
    ph: "phase_of (sessions s sid) = InBatch claimed (i # rest)"
    by (auto split: phase.splits list.splits)
  have hi: "i \<in> claimed_pieces (ledger s)" "i \<notin> set rest" "distinct rest"
    "set rest \<subseteq> claimed_pieces (ledger s)"
    using held ph by (auto simp: batch_held_def)
  show ?thesis
  proof (cases "finish_piece sha1 td i piece_data (ledger s)")
    case (Inl ex)
    with st PieceDone x ph release_inv [OF inv, of claimed] show ?thesis
      by (auto simp: set_phase_def batch_held_def)
  next
    case (Inr rd)
    have i2: "ledger_inv rd" using finish_piece_inv [OF Inr inv hi(1)] .
    have c2: "set rest \<subseteq> claimed_pieces rd"
      using finish_piece_claimed [OF Inr] hi(2,4) by auto
    from st PieceDone x ph Inr have s': "s' = set_phase sid (after_piece claimed rest) s rd"
      by simp
    show ?thesis
      unfolding s' using i2 c2 hi(3)
      by (auto simp: set_phase_def batch_held_def after_piece_def)
  qed
next
  case (Fail x)
  then have x: "x = sid" using sid by simp
  show ?thesis
    using st Fail x release_inv [OF inv]
    by (auto simp: set_phase_def batch_held_def split: phase.splits list.splits)
qed

lemma own_run_inv:
  "run sha1 td es s = Some s' \<Longrightarrow> \<forall>e \<in> set es. event_sid e = sid
   \<Longrightarrow> ledger_inv (ledger s) \<Longrightarrow> batch_held sid s
   \<Longrightarrow> ledger_inv (ledger s') \<and> batch_held sid s'"
proof (induction es arbitrary: s)
  case Nil
  then show ?case by simp
next
  case (Cons e es)
  from Cons.prems(1) obtain s1 where s1: "step sha1 td e s = Some s1" "run sha1 td es s1 = Some s'"
    by (auto split: option.splits)
  have "ledger_inv (ledger s1) \<and> batch_held sid s1"
    using own_step_inv [OF s1(1) _ Cons.prems(3,4)] Cons.prems(2) by simp
  then show ?case using Cons.IH [OF s1(2)] Cons.prems(2) by simp
qed

lemma single_session_ledger_inv:
  assumes "run sha1 td es (fresh_system n avail) = Some s" and "\<forall>e \<in> set es. event_sid e = sid"
  shows "ledger_inv (ledger s)"
proof -
  have "ledger_inv (ledger (fresh_system n avail))"
    using fresh_inv [of n] by (simp add: fresh_system_def)
  moreover have "batch_held sid (fresh_system n avail)"
    by (simp add: batch_held_def fresh_system_def)
  ultimately show ?thesis using own_run_inv [OF assms] by simp
qed

text \<open>
  Claim C1, the ledger invariant (no claimed piece is verified, and \<open>downloaded\<close> is the
  number of \<open>True\<close> entries of \<open>verified_pieces\<close>) at every point that the sessions reach
  from the fresh state. The counter part fails. The handler of line 289 discards every
  index of the session's list \<open>claimed\<close>, also one that the session has given up after a
  hash mismatch and that another session has claimed since. Session 0 claims pieces 0
  and 1 and gets bad bytes for piece 0; session 1 claims piece 0; session 0 fails on
  piece 1 and releases 0 and 1; session 2 claims piece 0 as well; both commit it. One
  piece is verified and \<open>downloaded\<close> is 2.
\<close>

theorem stale_release_double_count:
  assumes "sha1 good = h0" and "sha1 bad \<noteq> h0"
  shows "\<exists>s. run sha1 (two_pieces h0 h1)
           [Claim 0, PieceDone 0 bad, Claim 1, Fail 0, Claim 2, PieceDone 1 good, PieceDone 2 good]
           (fresh_system 2 three_peers) = Some s
         \<and> verified_pieces (ledger s) = [True, False]
         \<and> downloaded (ledger s) = 2
         \<and> popcount (verified_pieces (ledger s)) = 1
         \<and> \<not> ledger_inv (ledger s)"
  using assms
  by (simp add: two_pieces_def three_peers_def fresh_system_def fresh_ledger_def numeral_2_eq_2
      MAX_CLAIM_PER_PEER_def set_phase_def finish_piece_def verify_piece_hash_def release_def
      after_piece_def ledger_inv_def popcount_def)

text \<open>The run with the identity as digest function.\<close>

theorem stale_release_double_count_witness:
  "\<exists>s. run (\<lambda>d. d) (two_pieces [1] [2])
           [Claim 0, PieceDone 0 [9], Claim 1, Fail 0, Claim 2, PieceDone 1 [1], PieceDone 2 [1]]
           (fresh_system 2 three_peers) = Some s
         \<and> verified_pieces (ledger s) = [True, False]
         \<and> downloaded (ledger s) = 2
         \<and> popcount (verified_pieces (ledger s)) = 1
         \<and> \<not> ledger_inv (ledger s)"
  using stale_release_double_count [of "\<lambda>d. d" "[1]" "[1]" "[9]" "[2]"] by simp

text \<open>
  No step of any session sets a verified bit but the end of a piece's download with
  bytes of the right digest.
\<close>

lemma step_sets_bit_only_on_match:
  assumes "step sha1 td e s = Some s'"
    and "j < length (verified_pieces (ledger s'))" and "verified_pieces (ledger s') ! j"
    and "\<not> verified_pieces (ledger s) ! j"
  shows "\<exists>sid piece_data. e = PieceDone sid piece_data \<and> sha1 piece_data = td_hash_of_pieces td ! j"
proof (cases e)
  case (Claim sid)
  obtain ex cl rd where c: "claim_loop (available (sessions s sid)) [] (ledger s) = (ex, cl, rd)"
    by (metis prod_cases3)
  have "verified_pieces (ledger s') = verified_pieces (ledger s)"
    using assms(1) Claim c claim_loop_fields [OF c]
    by (auto simp: set_phase_def release_def split: phase.splits option.splits if_splits)
  with assms show ?thesis by simp
next
  case (PieceDone sid piece_data)
  from assms(1) PieceDone obtain claimed i rest where
    ph: "phase_of (sessions s sid) = InBatch claimed (i # rest)"
    by (auto split: phase.splits list.splits)
  show ?thesis
  proof (cases "finish_piece sha1 td i piece_data (ledger s)")
    case (Inl ex)
    with assms(1) PieceDone ph have "verified_pieces (ledger s') = verified_pieces (ledger s)"
      by (auto simp: set_phase_def release_def)
    with assms show ?thesis by simp
  next
    case (Inr rd)
    with assms(1) PieceDone ph have l: "ledger s' = rd" by (auto simp: set_phase_def)
    have "j = i \<and> sha1 piece_data = td_hash_of_pieces td ! i"
      using Inr assms(2-4) unfolding l
      by (auto simp: finish_piece_def verify_piece_hash_def nth_list_update split: if_splits)
    with PieceDone show ?thesis by simp
  qed
next
  case (Fail sid)
  have "verified_pieces (ledger s') = verified_pieces (ledger s)"
    using assms(1) Fail
    by (auto simp: set_phase_def release_def split: phase.splits list.splits)
  with assms show ?thesis by simp
qed

text \<open>
  Claim C2. In the one place that sets a verified bit, a bit that was not set before is
  set only for the piece at hand and only when the digest of the bytes is the digest of
  the metadata. When the digests differ, the piece leaves the claimed set, the verified
  bits and the counter stay as they were, and a piece that was not verified can be
  claimed again: the claim loop of a later session takes it.
\<close>

theorem integrity_gate:
  assumes "finish_piece sha1 td i piece_data rd = Inr rd'"
  shows "(\<forall>j. j < length (verified_pieces rd') \<and> verified_pieces rd' ! j \<and> \<not> verified_pieces rd ! j
            \<longrightarrow> j = i \<and> sha1 piece_data = td_hash_of_pieces td ! i)
       \<and> (sha1 piece_data \<noteq> td_hash_of_pieces td ! i \<longrightarrow>
            claimed_pieces rd' = claimed_pieces rd - {i}
            \<and> verified_pieces rd' = verified_pieces rd
            \<and> downloaded rd' = downloaded rd
            \<and> (i < length (verified_pieces rd) \<and> \<not> verified_pieces rd ! i \<longrightarrow>
                 claim_loop [i] [] rd'
                   = (None, [i], rd'\<lparr>claimed_pieces := insert i (claimed_pieces rd')\<rparr>)))"
proof (cases "sha1 piece_data = td_hash_of_pieces td ! i")
  case True
  with assms have rd': "rd' = rd\<lparr>verified_pieces := (verified_pieces rd)[i := True],
                   downloaded := downloaded rd + 1,
                   claimed_pieces := claimed_pieces rd - {i}\<rparr>"
    by (simp add: finish_piece_def verify_piece_hash_def split: if_splits)
  have "j = i" if "j < length (verified_pieces rd')" "verified_pieces rd' ! j"
    "\<not> verified_pieces rd ! j" for j
    using that unfolding rd' by (cases "j = i") simp_all
  with True show ?thesis by blast
next
  case False
  with assms have rd': "rd' = rd\<lparr>claimed_pieces := claimed_pieces rd - {i}\<rparr>"
    by (simp add: finish_piece_def verify_piece_hash_def split: if_splits)
  have "claim_loop [i] [] rd' = (None, [i], rd'\<lparr>claimed_pieces := insert i (claimed_pieces rd')\<rparr>)"
    if "i < length (verified_pieces rd)" "\<not> verified_pieces rd ! i"
    using that unfolding rd' by (simp add: MAX_CLAIM_PER_PEER_def)
  then show ?thesis unfolding rd' using False by simp
qed

text \<open>A mismatch on piece 0 of the two-piece torrent, with the identity as digest.\<close>

theorem integrity_gate_witness:
  "finish_piece (\<lambda>d. d) (two_pieces [1] [2]) 0 [9] claimed_ledger
     = Inr (claimed_ledger\<lparr>claimed_pieces := {1}\<rparr>)
   \<and> claim_loop [0] [] (claimed_ledger\<lparr>claimed_pieces := {1}\<rparr>)
     = (None, [0], claimed_ledger\<lparr>claimed_pieces := {1}\<rparr>
          \<lparr>claimed_pieces := insert 0 (claimed_pieces (claimed_ledger\<lparr>claimed_pieces := {1}\<rparr>))\<rparr>)
   \<and> verified_pieces (claimed_ledger\<lparr>claimed_pieces := {1}\<rparr>) = verified_pieces claimed_ledger
   \<and> downloaded (claimed_ledger\<lparr>claimed_pieces := {1}\<rparr>) = downloaded claimed_ledger"
proof -
  have a: "finish_piece (\<lambda>d. d) (two_pieces [1] [2]) 0 [9] claimed_ledger
     = Inr (claimed_ledger\<lparr>claimed_pieces := {1}\<rparr>)"
    by (simp add: finish_piece_def two_pieces_def verify_piece_hash_def claimed_ledger_def
        fresh_ledger_def)
  have ne: "(\<lambda>d. d) [9 :: byte] \<noteq> td_hash_of_pieces (two_pieces [1] [2]) ! 0"
    by (simp add: two_pieces_def)
  have un: "0 < length (verified_pieces claimed_ledger) \<and> \<not> verified_pieces claimed_ledger ! 0"
    by (simp add: claimed_ledger_def fresh_ledger_def)
  from integrity_gate [OF a] ne un a show ?thesis by blast
qed

section \<open>The blocks of a piece\<close>

text \<open>
  The requests of a piece cover \<open>piece_length\<close> bytes, whichever piece it is, and the
  buffer that is hashed never has fewer bytes than that.
\<close>

lemma requests_sum:
  "sum_list (map (\<lambda>n. min B (pl - n * B)) [0..<k]) = min pl (k * B)"
  by (induction k) (auto simp: min_def)

lemma block_requests_cover_piece_length:
  "sum_list (map (\<lambda>(i, b, l). l) (block_requests pl piece_index)) = pl"
proof -
  have "map (\<lambda>(i, b, l). l) (block_requests pl piece_index)
          = map (\<lambda>n. min BLOCK_SIZE (pl - n * BLOCK_SIZE)) [0..<num_blocks pl]"
    by (simp add: block_requests_def block_request_def Let_def)
  moreover have "pl \<le> num_blocks pl * BLOCK_SIZE"
  proof -
    have pos: "0 < BLOCK_SIZE" by (simp add: BLOCK_SIZE_def)
    define x where "x = pl + BLOCK_SIZE - 1"
    have "x div BLOCK_SIZE * BLOCK_SIZE + x mod BLOCK_SIZE = x" by simp
    moreover have "x mod BLOCK_SIZE < BLOCK_SIZE" using pos by simp
    ultimately have "pl \<le> x div BLOCK_SIZE * BLOCK_SIZE" unfolding x_def by linarith
    then show ?thesis by (simp add: num_blocks_def x_def)
  qed
  ultimately show ?thesis by (simp add: requests_sum)
qed

lemma slice_assign_length: "length piece_data \<le> length (slice_assign piece_data begin r_block)"
  by (simp add: slice_assign_def)

lemma download_blocks_length:
  "download_blocks reqs piece_data stream written = Inr (data, rest, written')
   \<Longrightarrow> length piece_data \<le> length data"
proof (induction reqs arbitrary: piece_data stream written)
  case Nil
  then show ?case by simp
next
  case (Cons r reqs)
  obtain i b l where r: "r = (i, b, l)" by (cases r)
  from Cons.prems r obtain r_block stream' request_msg where
    "download_blocks reqs (slice_assign piece_data b r_block) stream' (written @ [request_msg])
       = Inr (data, rest, written')"
    by (auto split: sum.splits)
  from Cons.IH [OF this] slice_assign_length [of piece_data b r_block]
  show ?case by simp
qed

lemma download_piece_length:
  "download_piece td piece_index stream = Inr (data, rest, written)
   \<Longrightarrow> td_piece_length td \<le> length data"
  using download_blocks_length [of _ "replicate (td_piece_length td) 0"]
  by (fastforce simp: download_piece_def)

lemma be_bytes_4:
  "be_bytes 4 v =
     [of_nat (v div 256 div 256 div 256 mod 256), of_nat (v div 256 div 256 mod 256),
      of_nat (v div 256 mod 256), of_nat (v mod 256)]"
proof -
  have "be_bytes (Suc (Suc (Suc (Suc 0)))) v =
     [of_nat (v div 256 div 256 div 256 mod 256), of_nat (v div 256 div 256 mod 256),
      of_nat (v div 256 mod 256), of_nat (v mod 256)]"
    by simp
  moreover have "(4 :: nat) = Suc (Suc (Suc (Suc 0)))" by simp
  ultimately show ?thesis by (simp only:)
qed

lemma recv_last_piece: "recv_block 2 0 [Msg (last_piece_msg blk)] = Inr (blk, [])"
proof -
  have u1: "unpack_I [0, 0, 0x1C, 0x49] = Inr 7241"
    by (simp add: unpack_I_def be_nat_def)
  have u2: "unpack_b [7] = Inr 7"
    by (simp add: unpack_b_def)
  have s1: "slice 0 4 (last_piece_msg blk) = [0, 0, 0x1C, 0x49]"
    by (simp add: last_piece_msg_def slice_def)
  have s2: "slice 4 5 (last_piece_msg blk) = [7]"
    by (simp add: last_piece_msg_def slice_def)
  have s3: "drop 5 (last_piece_msg blk) = 0 # 0 # 0 # 2 # 0 # 0 # 0 # 0 # blk"
    by (simp add: last_piece_msg_def)
  have p1: "parse_message (last_piece_msg blk)
      = Inr \<lparr>msg_size = Some 7241, msg_id = Some 7,
             payload = Some (0 # 0 # 0 # 2 # 0 # 0 # 0 # 0 # blk)\<rparr>"
    unfolding parse_message_def s1 s2 s3 u1 u2 by (simp add: last_piece_msg_def)
  have u3: "unpack_II (slice 0 8 (0 # 0 # 0 # 2 # 0 # 0 # 0 # 0 # blk)) = Inr (2, 0)"
    by (simp add: unpack_II_def slice_def be_nat_def)
  show ?thesis
    by (simp add: p1 is_piece_def u3)
qed

text \<open>
  Claim C5, at the last piece of the 40000-byte torrent, whose size is 7232 bytes. The
  session sends one request, for 16384 bytes of piece 2, not for 7232; when the peer
  answers with the 7232 bytes of the piece, the buffer that goes to the hash check is
  those bytes followed by 9152 zero bytes, 16384 bytes in all.
\<close>

theorem last_piece_requested_at_piece_length:
  "last_piece_size (s1_torrent hs) = 7232
   \<and> block_requests (td_piece_length (s1_torrent hs)) 2 = [(2, 0, 16384)]
   \<and> download_piece (s1_torrent hs) 2 [Msg (last_piece_msg (replicate 7232 65))]
       = Inr (replicate 7232 65 @ replicate 9152 0, [],
              [[0, 0, 0, 13, 6, 0, 0, 0, 2, 0, 0, 0, 0, 0, 0, 0x40, 0]])
   \<and> length (replicate 7232 (65 :: byte) @ replicate 9152 0) = 16384"
proof -
  have lp: "last_piece_size (s1_torrent hs) = 7232"
    by (simp add: last_piece_size_def s1_torrent_def)
  have nb: "block_requests 16384 2 = [(2, 0, 16384)]"
    by (simp add: block_requests_def num_blocks_def BLOCK_SIZE_def block_request_def)
  have br: "build_request 2 0 16384 = Inr [0, 0, 0, 13, 6, 0, 0, 0, 2, 0, 0, 0, 0, 0, 0, 0x40, 0]"
    by (simp add: build_request_def pack_u_def be_bytes_4)
  have sa: "slice_assign (replicate 16384 0) 0 (replicate 7232 (65 :: byte))
      = replicate 7232 65 @ replicate 9152 0"
    by (simp add: slice_assign_def)
  have dp: "download_piece (s1_torrent hs) 2 [Msg (last_piece_msg (replicate 7232 65))]
       = Inr (replicate 7232 65 @ replicate 9152 0, [],
              [[0, 0, 0, 13, 6, 0, 0, 0, 2, 0, 0, 0, 0, 0, 0, 0x40, 0]])"
    unfolding download_piece_def
    by (simp add: s1_torrent_def nb br recv_last_piece sa del: recv_block.simps)
  show ?thesis using lp nb dp by (simp add: s1_torrent_def)
qed

section \<open>The handle worker\<close>

lemma parse_bitfield_msg:
  "parse_message bitfield_msg = Inr \<lparr>msg_size = Some 2, msg_id = Some 5, payload = Some [0x80]\<rparr>"
  by (simp add: parse_message_def bitfield_msg_def slice_def unpack_I_def unpack_b_def be_nat_def)

text \<open>
  Claim C6, at a torrent of 8 pieces, none verified, and a peer whose first message is
  a bitfield with piece 0. The worker reads the bitfield, writes \<open>interested\<close> and hands
  the connection to the download queue; no unchoke has been read.
\<close>

theorem bitfield_path_enqueues_without_unchoke:
  "handle_connection [Msg bitfield_msg] (replicate 8 False)
     = [Recv bitfield_msg, Send build_interested, Enqueue [0]]
   \<and> \<not> enqueue_after_unchoke False (handle_connection [Msg bitfield_msg] (replicate 8 False))"
proof -
  have v: "replicate 8 False = [False, False, False, False, False, False, False, False]"
    by (simp add: eval_nat_numeral)
  have b: "bitfield_handler \<lparr>msg_size = Some 2, msg_id = Some 5, payload = Some [0x80]\<rparr>
             (replicate 8 False) = Inr [0]"
    unfolding v by (simp add: bitfield_handler_def upt_conv_Cons)
  have h: "handle_connection [Msg bitfield_msg] (replicate 8 False)
     = [Recv bitfield_msg, Send build_interested, Enqueue [0]]"
    by (simp add: handle_connection_def parse_bitfield_msg is_have_def is_bitfeild_def b)
  have u: "\<not> unchoke_msg bitfield_msg"
    by (simp add: unchoke_msg_def parse_bitfield_msg is_unchoke_def)
  show ?thesis unfolding h using u by simp
qed

text \<open>
  The sibling path: when the first message is a \<open>have\<close>, the connection reaches the
  download queue only after an unchoke has been read, whatever the peer sends.
\<close>

lemma after_trace:
  "enqueue_after_unchoke seen (tr @ [Enqueue ps])
     = (enqueue_after_unchoke seen tr \<and> (seen \<or> (\<exists>m. Recv m \<in> set tr \<and> unchoke_msg m)))"
proof (induction tr arbitrary: seen)
  case Nil
  then show ?case by simp
next
  case (Cons ev tr)
  then show ?case by (cases ev) auto
qed

lemma after_trace_close:
  "enqueue_after_unchoke seen (tr @ [CloseWriter]) = enqueue_after_unchoke seen tr"
proof (induction tr arbitrary: seen)
  case Nil
  then show ?case by simp
next
  case (Cons ev tr)
  then show ?case by (cases ev) auto
qed

lemma after_trace_recv:
  "enqueue_after_unchoke seen (tr @ [Recv m]) = enqueue_after_unchoke seen tr"
proof (induction tr arbitrary: seen)
  case Nil
  then show ?case by simp
next
  case (Cons ev tr)
  then show ?case by (cases ev) auto
qed

lemma wait_for_unchoke_trace:
  "wait_for_unchoke stream tr = (r, tr') \<Longrightarrow> enqueue_after_unchoke seen tr
   \<Longrightarrow> enqueue_after_unchoke seen tr'
       \<and> (r = Inr True \<longrightarrow> (\<exists>m. Recv m \<in> set tr' \<and> unchoke_msg m))"
proof (induction stream tr rule: wait_for_unchoke.induct)
  case (1 tr)
  then show ?case by auto
next
  case (2 rest tr)
  then show ?case by auto
next
  case (3 msg rest tr)
  show ?case
  proof (cases "parse_message msg")
    case (Inl e)
    with 3 show ?thesis by (auto simp: after_trace_recv)
  next
    case (Inr parsed)
    show ?thesis
    proof (cases "is_unchoke parsed")
      case True
      with 3 Inr show ?thesis by (auto simp: after_trace_recv unchoke_msg_def)
    next
      case False
      with 3 Inr show ?thesis by (auto simp: after_trace_recv)
    qed
  qed
qed

lemma have_path_waits_for_unchoke:
  assumes "parse_message msg = Inr parsed" and "is_have parsed"
  shows "enqueue_after_unchoke False (handle_connection (Msg msg # rest) verified)"
proof -
  have nb: "\<not> is_bitfeild parsed" using assms(2) by (simp add: is_have_def is_bitfeild_def)
  obtain r tr where w: "wait_for_unchoke rest [Recv msg] = (r, tr)" by (cases "wait_for_unchoke rest [Recv msg]")
  have t: "enqueue_after_unchoke False tr \<and> (r = Inr True \<longrightarrow> (\<exists>m. Recv m \<in> set tr \<and> unchoke_msg m))"
    using wait_for_unchoke_trace [OF w, of False] by simp
  show ?thesis
    using assms w t
    by (auto simp: handle_connection_def after_trace after_trace_close split: sum.splits)
qed

section \<open>The resume file\<close>

lemma all_some_map_Some: "all_some (map (\<lambda>x. Some (f x)) xs) = Some (map f xs)"
  by (induction xs) auto

lemma as_list_ints: "as_list as_int (PList (map PInt xs)) = Some xs"
  using all_some_map_Some [of "\<lambda>x. x" xs]
  by (simp add: as_list_def as_int_def comp_def)

lemma as_list_bools: "as_list as_bool (PList (map PBool xs)) = Some xs"
  using all_some_map_Some [of "\<lambda>x. x" xs]
  by (simp add: as_list_def as_bool_def comp_def)

lemma serialisable_ints: "serialisable_list (map PInt xs)"
  by (induction xs) auto

lemma serialisable_bools: "serialisable_list (map PBool xs)"
  by (induction xs) auto

lemma popped:
  "pop ''claimed_pieces'' (pop ''lock'' (asdict r)) =
     [(''info_hash'', PStr (info_hash r)),
      (''piece_length'', PInt (piece_length r)),
      (''total_pieces'', PInt (total_pieces r)),
      (''downloaded'', PInt (downloaded r)),
      (''file_sizes'', PList (map PInt (file_sizes r))),
      (''mtime'', PInt (mtime r)),
      (''verified_pieces'', PList (map PBool (verified_pieces r))),
      (''last_active'', PStr (last_active r))]"
  by (simp add: pop_def asdict_def)

lemma construct_popped:
  "construct (pop ''claimed_pieces'' (pop ''lock'' (asdict r))) = Inr (r\<lparr>claimed_pieces := {}\<rparr>)"
  unfolding popped
  by (simp add: construct_def init_fields_def field_def as_str_def as_int_def as_list_ints
      as_list_bools)

text \<open>
  Claim C7. For every resume record, \<open>to_json\<close> succeeds and writes a dictionary without
  the key \<open>claimed_pieces\<close>, and \<open>from_json\<close> on the file that it wrote gives the record
  back with the same \<open>verified_pieces\<close>, the same \<open>downloaded\<close> (and the same other
  constructor fields) and an empty claimed set, whatever was claimed before.
\<close>

theorem resume_round_trip:
  "to_json r path fs = Inr (fs(path \<mapsto> pop ''claimed_pieces'' (pop ''lock'' (asdict r))))
   \<and> from_json path (fs(path \<mapsto> pop ''claimed_pieces'' (pop ''lock'' (asdict r))))
       = Inr (r\<lparr>claimed_pieces := {}\<rparr>)
   \<and> verified_pieces (r\<lparr>claimed_pieces := {}\<rparr>) = verified_pieces r
   \<and> downloaded (r\<lparr>claimed_pieces := {}\<rparr>) = downloaded r
   \<and> claimed_pieces (r\<lparr>claimed_pieces := {}\<rparr>) = {}
   \<and> map_of (pop ''claimed_pieces'' (pop ''lock'' (asdict r))) ''claimed_pieces'' = None"
proof -
  have w: "to_json r path fs = Inr (fs(path \<mapsto> pop ''claimed_pieces'' (pop ''lock'' (asdict r))))"
    unfolding to_json_def json_dump_def popped
    by (simp add: serialisable_ints serialisable_bools)
  have l: "from_json path (fs(path \<mapsto> pop ''claimed_pieces'' (pop ''lock'' (asdict r))))
       = Inr (r\<lparr>claimed_pieces := {}\<rparr>)"
    by (simp add: from_json_def construct_popped)
  have n: "map_of (pop ''claimed_pieces'' (pop ''lock'' (asdict r))) ''claimed_pieces'' = None"
    unfolding popped by simp
  show ?thesis using w l n by simp
qed

text \<open>The round trip of a record with piece 1 claimed.\<close>

theorem resume_round_trip_witness:
  "from_json ''resume.json''
     (Map.empty(''resume.json'' \<mapsto> pop ''claimed_pieces'' (pop ''lock'' (asdict resume_example))))
     = Inr (resume_example\<lparr>claimed_pieces := {}\<rparr>)
   \<and> claimed_pieces resume_example = {1}"
  using resume_round_trip [of resume_example "''resume.json''" Map.empty]
  by (simp add: resume_example_def)

section \<open>The tracker client\<close>

lemma be_bytes_2: "be_bytes 2 v = [of_nat (v div 256 mod 256), of_nat (v mod 256)]"
proof -
  have "be_bytes (Suc (Suc 0)) v = [of_nat (v div 256 mod 256), of_nat (v mod 256)]" by simp
  then show ?thesis by (simp only: numeral_2_eq_2)
qed

lemma be_bytes_length: "length (be_bytes n v) = n"
  by (induction n arbitrary: v) auto

lemma pack_field_length:
  "pack_field f = Inr b \<Longrightarrow>
   length b = (case f of Unsigned n v \<Rightarrow> n | Signed n v \<Rightarrow> n | Str n s \<Rightarrow> n)"
  by (cases f) (auto simp: pack_u_def be_bytes_length split: if_splits)

lemma struct_pack_Cons:
  "struct_pack (f # fs) = Inr r \<Longrightarrow>
   \<exists>b bs. pack_field f = Inr b \<and> struct_pack fs = Inr bs \<and> r = b @ bs"
  by (auto split: sum.splits)

lemma be_nat_be_bytes_4_2: "be_nat (be_bytes 4 2) = 2"
  by (simp add: be_bytes_4 be_nat_def)

lemma be_bytes_8:
  "be_bytes 8 v =
     [of_nat (v div 256 div 256 div 256 div 256 div 256 div 256 div 256 mod 256),
      of_nat (v div 256 div 256 div 256 div 256 div 256 div 256 mod 256),
      of_nat (v div 256 div 256 div 256 div 256 div 256 mod 256),
      of_nat (v div 256 div 256 div 256 div 256 mod 256),
      of_nat (v div 256 div 256 div 256 mod 256), of_nat (v div 256 div 256 mod 256),
      of_nat (v div 256 mod 256), of_nat (v mod 256)]"
proof -
  have "be_bytes (Suc (Suc (Suc (Suc (Suc (Suc (Suc (Suc 0)))))))) v =
     [of_nat (v div 256 div 256 div 256 div 256 div 256 div 256 div 256 mod 256),
      of_nat (v div 256 div 256 div 256 div 256 div 256 div 256 mod 256),
      of_nat (v div 256 div 256 div 256 div 256 div 256 mod 256),
      of_nat (v div 256 div 256 div 256 div 256 mod 256),
      of_nat (v div 256 div 256 div 256 mod 256), of_nat (v div 256 div 256 mod 256),
      of_nat (v div 256 mod 256), of_nat (v mod 256)]"
    by simp
  moreover have "(8 :: nat) = Suc (Suc (Suc (Suc (Suc (Suc (Suc (Suc 0)))))))" by simp
  ultimately show ?thesis by (simp only:)
qed

lemma connect_req_bytes:
  "txn < 2 ^ 32 \<Longrightarrow>
   struct_pack [Unsigned 8 protocol_id, Unsigned 4 0, Unsigned 4 txn] = Inr (connect_example txn)"
  by (simp add: pack_u_def protocol_id_def be_bytes_8 be_bytes_4 connect_example_def)

lemma announce_example_bytes:
  "announce_req 99 8 hash7 (replicate 12 0) 40000 5 = Inr announce_example"
  by (simp add: announce_req_def pack_u_def be_bytes_8 be_bytes_4 be_bytes_2 PORT_NUMBER_def
      hash7_def announce_example_def)

lemma announce_example_length: "length announce_example = 98"
  by (simp add: announce_example_def)

lemma connect_example_length: "length (connect_example txn) = 16"
  by (simp add: connect_example_def be_bytes_length)

lemma connect_good:
  "make_connection_request (conn_env good_tracker) (Suc 0) st
     = Some (Return 99, st\<lparr>sent := sent st @ [connect_example 7]\<rparr>)"
  by (subst make_connection_request.simps)
     (simp add: good_tracker_def connect_req_bytes connect_reply_def connect_resp_def be_bytes_4
        slice_def be_nat_def MAX_TRY_def del: struct_pack.simps)

lemma connect_bad:
  "make_connection_request (conn_env bad_txn_tracker) (Suc 0) st
     = Some (Raise InvalidConnectionRespone, st\<lparr>sent := sent st @ [connect_example 7]\<rparr>)"
  by (subst make_connection_request.simps)
     (simp add: bad_txn_tracker_def connect_req_bytes connect_reply_def connect_resp_def be_bytes_4
        slice_def be_nat_def MAX_TRY_def del: struct_pack.simps)

lemma parse_one_peer: "parse_peers announce_resp_one_peer 20 [] = Inr [([10, 0, 0, 1], 6881)]"
  by (simp add: announce_resp_one_peer_def slice_def be_nat_def)

lemma announce_good:
  "make_announce_request 99 hash7 40000 (ann_env good_tracker) (Suc 0) st
     = Some (Return [([10, 0, 0, 1], 6881)],
             st\<lparr>sent := sent st @ [announce_example], swarm := Some (1800, 4, 3)\<rparr>)"
proof -
  have r: "announce_reply 8 announce_resp_one_peer st'
      = (Return [([10, 0, 0, 1], 6881)], st'\<lparr>swarm := Some (1800, 4, 3)\<rparr>)" for st'
    unfolding announce_reply_def parse_one_peer
    by (simp add: announce_resp_one_peer_def slice_def be_nat_def)
  show ?thesis
    by (subst make_announce_request.simps)
       (simp add: good_tracker_def healthy_announce_def announce_example_bytes r)
qed

lemma good_round:
  "get_peers_list hash7 40000 [good_tracker] st
     = Some (Return (),
             st\<lparr>sent := sent st @ [connect_example 7, announce_example],
                swarm := Some (1800, 4, 3),
                peer_list := peer_list st @ [[([10, 0, 0, 1], 6881)]]\<rparr>)"
  by (simp add: connect_good announce_good)

lemma bad_round:
  "get_peers_list ih total_len (bad_txn_tracker # ts) st
     = Some (SysExit 1, st\<lparr>sent := sent st @ [connect_example 7]\<rparr>)"
  by (simp add: connect_bad connect_continues_def)

text \<open>
  A timeout and a DNS failure of the connect exchange are both recovered from: the loop
  goes on with the next URL.
\<close>

lemma connect_timeout_goes_on:
  assumes "conn_txn (conn_env t 1) < 2 ^ 32" and "conn_send (conn_env t 1) = Sent"
    and "conn_recv (conn_env t 1) = RecvTimeout"
  shows "get_peers_list ih total_len (t # ts) st
     = get_peers_list ih total_len ts
         (st\<lparr>sent := sent st @ [connect_example (conn_txn (conn_env t 1))]\<rparr>)"
proof -
  have "make_connection_request (conn_env t) 1 st
      = Some (Raise TimeoutError, st\<lparr>sent := sent st @ [connect_example (conn_txn (conn_env t 1))]\<rparr>)"
    using assms
    by (subst make_connection_request.simps)
       (simp add: connect_req_bytes MAX_TRY_def del: struct_pack.simps)
  then show ?thesis
    by (simp add: connect_continues_def)
qed

lemma connect_dns_failure_goes_on:
  assumes "conn_txn (conn_env t 1) < 2 ^ 32" and "conn_send (conn_env t 1) = SendGaierror"
  shows "get_peers_list ih total_len (t # ts) st
     = get_peers_list ih total_len ts
         (st\<lparr>sent := sent st @ [connect_example (conn_txn (conn_env t 1))]\<rparr>)"
proof -
  have "make_connection_request (conn_env t) 1 st
      = Some (Raise Gaierror, st\<lparr>sent := sent st @ [connect_example (conn_txn (conn_env t 1))]\<rparr>)"
    using assms
    by (subst make_connection_request.simps)
       (simp add: connect_req_bytes del: struct_pack.simps)
  then show ?thesis
    by (simp add: connect_continues_def)
qed

text \<open>
  An invalid connect reply is not: \<open>_make_connection_request\<close> raises
  \<open>InvalidConnectionRespone\<close> (or \<open>struct.error\<close> for a reply of more than 16 bytes), the
  handlers of the connect step name \<open>InvalidAnnounceRespone\<close>, and the exception ends in
  \<open>sys.exit(1)\<close>, for every reply that the checks reject.
\<close>

lemma connect_reply_never_continues:
  "connect_reply txn resp = Raise e \<Longrightarrow> \<not> connect_continues e"
  by (auto simp: connect_reply_def connect_continues_def Let_def split: if_splits)

lemma invalid_connect_reply_always_exits:
  assumes "conn_txn (conn_env t 1) < 2 ^ 32" and "conn_send (conn_env t 1) = Sent"
    and "conn_recv (conn_env t 1) = Received resp"
    and "connect_reply (conn_txn (conn_env t 1)) resp = Raise e"
  shows "get_peers_list ih total_len (t # ts) st
     = Some (SysExit 1, st\<lparr>sent := sent st @ [connect_example (conn_txn (conn_env t 1))]\<rparr>)"
proof -
  have "make_connection_request (conn_env t) 1 st
      = Some (Raise e, st\<lparr>sent := sent st @ [connect_example (conn_txn (conn_env t 1))]\<rparr>)"
    using assms
    by (subst make_connection_request.simps) (simp add: connect_req_bytes del: struct_pack.simps)
  then show ?thesis
    using connect_reply_never_continues [OF assms(4)] by simp
qed

text \<open>
  Claim C8, at a URL list of two trackers of which the first answers the connect
  request with a wrong transaction id. \<open>get_peers_list\<close> ends in \<open>sys.exit(1)\<close> after
  the one connect request, with no peer list published; the second tracker, which alone
  would have given the peer 10.0.0.1:6881, is never asked.
\<close>

theorem invalid_connect_reply_exits:
  "get_peers_list hash7 40000 [bad_txn_tracker, good_tracker] no_traffic
     = Some (SysExit 1, no_traffic\<lparr>sent := [connect_example 7]\<rparr>)
   \<and> get_peers_list hash7 40000 [good_tracker] no_traffic
     = Some (Return (),
             no_traffic\<lparr>sent := [connect_example 7, announce_example],
                        swarm := Some (1800, 4, 3),
                        peer_list := [[([10, 0, 0, 1], 6881)]]\<rparr>)"
proof
  have "make_connection_request (conn_env bad_txn_tracker) (Suc 0) no_traffic
      = Some (Raise InvalidConnectionRespone, no_traffic\<lparr>sent := [connect_example 7]\<rparr>)"
    using connect_bad [of no_traffic] by (simp add: no_traffic_def)
  moreover have "\<not> connect_continues InvalidConnectionRespone"
    by (simp add: connect_continues_def)
  ultimately show "get_peers_list hash7 40000 [bad_txn_tracker, good_tracker] no_traffic
     = Some (SysExit 1, no_traffic\<lparr>sent := [connect_example 7]\<rparr>)"
    by simp
next
  show "get_peers_list hash7 40000 [good_tracker] no_traffic
     = Some (Return (),
             no_traffic\<lparr>sent := [connect_example 7, announce_example],
                        swarm := Some (1800, 4, 3),
                        peer_list := [[([10, 0, 0, 1], 6881)]]\<rparr>)"
    using good_round [of no_traffic] by (simp add: no_traffic_def del: get_peers_list.simps)
qed

text \<open>
  Claim C9 as stated fails on the second round of \<open>populate_peers\<close>: with a tracker that
  answers well in both rounds, the two announce requests that are sent both carry the
  event 2, the periodic re-announce too, where the claim has 0.
\<close>

theorem reannounce_event_is_started:
  "map event_field (announces (populate_peers 2 hash7 40000 every_round_good 0 no_traffic)) = [2, 2]"
proof -
  have e: "event_field announce_example = 2"
    by (simp add: event_field_def announce_example_def slice_def be_nat_def)
  have "populate_peers (Suc (Suc 0)) hash7 40000 every_round_good 0 no_traffic
      = Some (Return (),
              no_traffic\<lparr>sent := [connect_example 7, announce_example, connect_example 7, announce_example],
                         swarm := Some (1800, 4, 3),
                         peer_list := [[([10, 0, 0, 1], 6881)], [([10, 0, 0, 1], 6881)]]\<rparr>)"
    by (simp add: every_round_good_def good_round no_traffic_def del: get_peers_list.simps)
  then show ?thesis
    by (simp add: numeral_2_eq_2 announces_def no_traffic_def announce_example_length
        connect_example_length e)
qed

text \<open>
  Claim C9 as amended: the event field of every announce request that the client builds
  is 2 (started), on the first announce and on every later one alike; the client builds
  no request with another event, so none with 1 (completed) either.
\<close>

theorem announce_event_is_started:
  assumes "announce_req connection_id transaction_id info_hash_bytes rand12 total_len key = Inr req"
  shows "event_field req = 2"
proof -
  let ?peer = "map of_char ''-TR4003-'' @ rand12"
  from assms have sp: "struct_pack
           [Unsigned 8 connection_id, Unsigned 4 1, Unsigned 4 transaction_id,
            Str 20 info_hash_bytes, Str 20 ?peer,
            Unsigned 8 0, Unsigned 8 total_len, Unsigned 8 0,
            Unsigned 4 2, Unsigned 4 0, Unsigned 4 key, Signed 4 (- 1),
            Unsigned 2 PORT_NUMBER] = Inr req"
    by (simp add: announce_req_def Let_def)
  from struct_pack_Cons [OF sp] obtain b1 r1 where
    1: "pack_field (Unsigned 8 connection_id) = Inr b1" and s1: "struct_pack
           [Unsigned 4 1, Unsigned 4 transaction_id,
            Str 20 info_hash_bytes, Str 20 ?peer,
            Unsigned 8 0, Unsigned 8 total_len, Unsigned 8 0,
            Unsigned 4 2, Unsigned 4 0, Unsigned 4 key, Signed 4 (- 1),
            Unsigned 2 PORT_NUMBER] = Inr r1" and e1: "req = b1 @ r1" by blast
  from struct_pack_Cons [OF s1] obtain b2 r2 where
    2: "pack_field (Unsigned 4 1) = Inr b2" and s2: "struct_pack
           [Unsigned 4 transaction_id,
            Str 20 info_hash_bytes, Str 20 ?peer,
            Unsigned 8 0, Unsigned 8 total_len, Unsigned 8 0,
            Unsigned 4 2, Unsigned 4 0, Unsigned 4 key, Signed 4 (- 1),
            Unsigned 2 PORT_NUMBER] = Inr r2" and e2: "r1 = b2 @ r2" by blast
  from struct_pack_Cons [OF s2] obtain b3 r3 where
    3: "pack_field (Unsigned 4 transaction_id) = Inr b3" and s3: "struct_pack
           [Str 20 info_hash_bytes, Str 20 ?peer,
            Unsigned 8 0, Unsigned 8 total_len, Unsigned 8 0,
            Unsigned 4 2, Unsigned 4 0, Unsigned 4 key, Signed 4 (- 1),
            Unsigned 2 PORT_NUMBER] = Inr r3" and e3: "r2 = b3 @ r3" by blast
  from struct_pack_Cons [OF s3] obtain b4 r4 where
    4: "pack_field (Str 20 info_hash_bytes) = Inr b4" and s4: "struct_pack
           [Str 20 ?peer,
            Unsigned 8 0, Unsigned 8 total_len, Unsigned 8 0,
            Unsigned 4 2, Unsigned 4 0, Unsigned 4 key, Signed 4 (- 1),
            Unsigned 2 PORT_NUMBER] = Inr r4" and e4: "r3 = b4 @ r4" by blast
  from struct_pack_Cons [OF s4] obtain b5 r5 where
    5: "pack_field (Str 20 ?peer) = Inr b5" and s5: "struct_pack
           [Unsigned 8 0, Unsigned 8 total_len, Unsigned 8 0,
            Unsigned 4 2, Unsigned 4 0, Unsigned 4 key, Signed 4 (- 1),
            Unsigned 2 PORT_NUMBER] = Inr r5" and e5: "r4 = b5 @ r5" by blast
  from struct_pack_Cons [OF s5] obtain b6 r6 where
    6: "pack_field (Unsigned 8 0) = Inr b6" and s6: "struct_pack
           [Unsigned 8 total_len, Unsigned 8 0,
            Unsigned 4 2, Unsigned 4 0, Unsigned 4 key, Signed 4 (- 1),
            Unsigned 2 PORT_NUMBER] = Inr r6" and e6: "r5 = b6 @ r6" by blast
  from struct_pack_Cons [OF s6] obtain b7 r7 where
    7: "pack_field (Unsigned 8 total_len) = Inr b7" and s7: "struct_pack
           [Unsigned 8 0,
            Unsigned 4 2, Unsigned 4 0, Unsigned 4 key, Signed 4 (- 1),
            Unsigned 2 PORT_NUMBER] = Inr r7" and e7: "r6 = b7 @ r7" by blast
  from struct_pack_Cons [OF s7] obtain b8 r8 where
    8: "pack_field (Unsigned 8 0) = Inr b8" and s8: "struct_pack
           [Unsigned 4 2, Unsigned 4 0, Unsigned 4 key, Signed 4 (- 1),
            Unsigned 2 PORT_NUMBER] = Inr r8" and e8: "r7 = b8 @ r8" by blast
  from struct_pack_Cons [OF s8] obtain b9 r9 where
    9: "pack_field (Unsigned 4 2) = Inr b9" and e9: "r8 = b9 @ r9" by blast
  have l: "length b1 = 8" "length b2 = 4" "length b3 = 4" "length b4 = 20" "length b5 = 20"
    "length b6 = 8" "length b7 = 8" "length b8 = 8"
    using pack_field_length [OF 1] pack_field_length [OF 2] pack_field_length [OF 3]
      pack_field_length [OF 4] pack_field_length [OF 5] pack_field_length [OF 6]
      pack_field_length [OF 7] pack_field_length [OF 8]
    by simp_all
  have b9: "b9 = be_bytes 4 2" using 9 by (simp add: pack_u_def)
  have "req = (b1 @ b2 @ b3 @ b4 @ b5 @ b6 @ b7 @ b8) @ be_bytes 4 2 @ r9"
    using e1 e2 e3 e4 e5 e6 e7 e8 e9 b9 by simp
  moreover have "length (b1 @ b2 @ b3 @ b4 @ b5 @ b6 @ b7 @ b8) = 80" using l by simp
  ultimately have "slice 80 84 req = be_bytes 4 2"
    by (simp add: slice_def be_bytes_length)
  then show ?thesis by (simp add: event_field_def be_nat_be_bytes_4_2)
qed

text \<open>The request for the example arguments and its event field.\<close>

theorem announce_event_is_started_witness:
  "announce_req 99 8 hash7 (replicate 12 0) 40000 5 = Inr announce_example
   \<and> event_field announce_example = 2"
  using announce_event_is_started [OF announce_example_bytes] announce_example_bytes by simp

end
